theory Spec2Isabelle
  imports Main "HOL-Library.Multiset"
begin

section \<open>The platform: values, numbers, strings, sorting\<close>

text \<open>
  The program is JavaScript. Everything that \<^verbatim>\<open>JSON.parse\<close> can give back is a \<open>jsval\<close>;
  the fields \<^verbatim>\<open>id\<close>, \<^verbatim>\<open>due\<close> and \<^verbatim>\<open>createdAt\<close> of a task hold such values, because
  \<^verbatim>\<open>loadTasks\<close> keeps whatever truthy value it finds there.

  Numbers of the blob and the \<^verbatim>\<open>order\<close> field are the integers that a double holds;
  a sum of two of them is rounded as double arithmetic rounds it (\<open>js_plus\<close> below).
  A string is a list of code units below 256.
  Equality \<^verbatim>\<open>===\<close> is \<open>=\<close>: exact on null, booleans, numbers and strings; on arrays
  and objects JavaScript compares references, which the model has not.
\<close>

datatype jsval =
    JNull
  | JBool bool
  | JNum int
  | JStr string
  | JArr "jsval list"
  | JObj "(string \<times> jsval) list"

text \<open>ToBoolean. A property that is missing reads as \<^verbatim>\<open>undefined\<close>, here \<open>None\<close>.\<close>

fun truthy :: "jsval \<Rightarrow> bool" where
  "truthy JNull = False"
| "truthy (JBool b) = b"
| "truthy (JNum n) = (n \<noteq> 0)"
| "truthy (JStr s) = (s \<noteq> [])"
| "truthy (JArr xs) = True"
| "truthy (JObj kvs) = True"

fun truthy_opt :: "jsval option \<Rightarrow> bool" where
  "truthy_opt None = False"
| "truthy_opt (Some v) = truthy v"

text \<open>
  \<^verbatim>\<open>t.key\<close> for the six keys \<^verbatim>\<open>loadTasks\<close> reads, on a value that is not null
  (on null the read throws; \<open>normalize\<close> below has that branch). Only an object has
  such a property; where the text of the blob repeats a key the last one stays.
\<close>

fun get_prop :: "jsval \<Rightarrow> string \<Rightarrow> jsval option" where
  "get_prop (JObj kvs) k = map_of (rev kvs) k"
| "get_prop v k = None"

text \<open>
  A number as the comparators of \<^verbatim>\<open>sort\<close> see it: \<^verbatim>\<open>getTime()\<close> is an integer or NaN,
  a missing due date is \<^verbatim>\<open>Infinity\<close>, and their difference can be any of the four.
\<close>

datatype number = Fin int | PosInfinity | NegInfinity | NaN

fun minus_number :: "number \<Rightarrow> number \<Rightarrow> number" where
  "minus_number (Fin a) (Fin b) = Fin (a - b)"
| "minus_number (Fin a) PosInfinity = NegInfinity"
| "minus_number (Fin a) NegInfinity = PosInfinity"
| "minus_number PosInfinity (Fin b) = PosInfinity"
| "minus_number PosInfinity NegInfinity = PosInfinity"
| "minus_number PosInfinity PosInfinity = NaN"
| "minus_number NegInfinity (Fin b) = NegInfinity"
| "minus_number NegInfinity PosInfinity = NegInfinity"
| "minus_number NegInfinity NegInfinity = NaN"
| "minus_number NaN y = NaN"
| "minus_number x NaN = NaN"

fun positive :: "number \<Rightarrow> bool" where
  "positive (Fin n) = (0 < n)"
| "positive PosInfinity = True"
| "positive NegInfinity = False"
| "positive NaN = False"

text \<open>
  Double arithmetic on integers. A double holds every integer up to \<open>2^53\<close> in
  magnitude (9007199254740992); beyond, it holds the multiples of 2, then of 4, and so
  on, 53 binary digits at a time. \<^verbatim>\<open>a + b\<close> is the exact sum rounded to the nearest
  double, a tie going to the one whose 53 digits end in 0. \<open>double_shift n\<close> is the
  number of binary digits of \<open>n\<close> beyond 53. (The difference \<^verbatim>\<open>a - b\<close> of the
  comparators is read for its sign only, which rounding keeps.)
\<close>

function double_shift :: "nat \<Rightarrow> nat" where
  "double_shift n = (if n < 9007199254740992 then 0 else Suc (double_shift (n div 2)))"
  by pat_completeness auto
termination
  by (relation "measure (\<lambda>n. n)") auto

declare double_shift.simps [simp del]

definition double_of_nat :: "nat \<Rightarrow> nat" where
  "double_of_nat n =
     (let u = 2 ^ double_shift n; q = n div u; r = n mod u
      in if 2 * r < u \<or> (2 * r = u \<and> even q) then q * u else (q + 1) * u)"

definition double_of_int :: "int \<Rightarrow> int" where
  "double_of_int i =
     (if i < 0 then - int (double_of_nat (nat (- i))) else int (double_of_nat (nat i)))"

definition js_plus :: "int \<Rightarrow> int \<Rightarrow> int" where
  "js_plus a b = double_of_int (a + b)"

text \<open>
  \<^verbatim>\<open>Array.prototype.sort(cmp)\<close> is stable and moves \<open>b\<close> before \<open>a\<close> only where
  \<^verbatim>\<open>cmp(a, b) > 0\<close>; a result of 0 or NaN keeps the two as they are. With a consistent
  comparator the outcome is the one stable sorted arrangement, which inserting from
  the right computes. With an inconsistent comparator the platform may order the
  elements in any way.
\<close>

fun insert_by :: "('a \<Rightarrow> 'a \<Rightarrow> number) \<Rightarrow> 'a \<Rightarrow> 'a list \<Rightarrow> 'a list" where
  "insert_by cmp x [] = [x]"
| "insert_by cmp x (y # ys) =
     (if positive (cmp x y) then y # insert_by cmp x ys else x # y # ys)"

definition js_sort :: "('a \<Rightarrow> 'a \<Rightarrow> number) \<Rightarrow> 'a list \<Rightarrow> 'a list" where
  "js_sort cmp xs = foldr (insert_by cmp) xs []"

text \<open>\<^verbatim>\<open>String.prototype.trim\<close>: white space and line terminators below 256.\<close>

definition is_space :: "char \<Rightarrow> bool" where
  "is_space c = (of_char c \<in> {9, 10, 11, 12, 13, 32, 160 :: nat})"

definition trim :: "string \<Rightarrow> string" where
  "trim s = rev (dropWhile is_space (rev (dropWhile is_space s)))"

text \<open>\<^verbatim>\<open>String.prototype.toLowerCase\<close> on code units below 256.\<close>

definition lower_char :: "char \<Rightarrow> char" where
  "lower_char c =
     (let n = (of_char c :: nat)
      in if (65 \<le> n \<and> n \<le> 90) \<or> (192 \<le> n \<and> n \<le> 222 \<and> n \<noteq> 215)
         then char_of (n + 32) else c)"

definition toLowerCase :: "string \<Rightarrow> string" where
  "toLowerCase s = map lower_char s"

text \<open>\<^verbatim>\<open>hay.includes(needle)\<close>: the needle starts at some position of the hay.\<close>

fun js_includes :: "string \<Rightarrow> string \<Rightarrow> bool" where
  "js_includes [] needle = (needle = [])"
| "js_includes (c # cs) needle =
     (take (length needle) (c # cs) = needle \<or> js_includes cs needle)"

text \<open>
  \<^verbatim>\<open>Number.prototype.toString(radix)\<close> on a natural number, digits \<^verbatim>\<open>0-9a-z\<close>. A radix
  outside 2 to 36 is a RangeError in JavaScript; the program passes 36, and \<^verbatim>\<open>String\<close>
  of a number is radix 10.
\<close>

definition digit_char :: "nat \<Rightarrow> char" where
  "digit_char d = ''0123456789abcdefghijklmnopqrstuvwxyz'' ! d"

function toStringRadix :: "nat \<Rightarrow> nat \<Rightarrow> string" where
  "toStringRadix r n =
     (if r < 2 \<or> 36 < r then []
      else if n < r then [digit_char n]
      else toStringRadix r (n div r) @ [digit_char (n mod r)])"
  by pat_completeness auto
termination
  by (relation "measure (\<lambda>(r, n). n)") auto

declare toStringRadix.simps [simp del]

definition int_toString :: "int \<Rightarrow> string" where
  "int_toString i =
     (if i < 0 then CHR ''-'' # toStringRadix 10 (nat (- i)) else toStringRadix 10 (nat i))"

text \<open>
  \<^verbatim>\<open>String(v)\<close>. An array joins the texts of its elements with commas, null giving the
  empty text. An object gives \<^verbatim>\<open>[object Object]\<close> through the inherited
  \<^verbatim>\<open>toString\<close>; an object of the blob that has a key \<^verbatim>\<open>toString\<close> of its own hides
  that method behind a value that cannot be called, and the conversion throws
  TypeError, here \<open>None\<close>.
\<close>

fun join_comma :: "string list \<Rightarrow> string" where
  "join_comma [] = []"
| "join_comma [s] = s"
| "join_comma (s # t # ss) = s @ '','' @ join_comma (t # ss)"

fun js_String :: "jsval \<Rightarrow> string option"
  and js_String_elems :: "jsval list \<Rightarrow> string list option" where
  "js_String JNull = Some ''null''"
| "js_String (JBool b) = Some (if b then ''true'' else ''false'')"
| "js_String (JNum n) = Some (int_toString n)"
| "js_String (JStr s) = Some s"
| "js_String (JArr xs) = map_option join_comma (js_String_elems xs)"
| "js_String (JObj kvs) =
     (if map_of (rev kvs) ''toString'' = None then Some ''[object Object]'' else None)"
| "js_String_elems [] = Some []"
| "js_String_elems (x # xs) =
     (case (if x = JNull then Some [] else js_String x) of
        None \<Rightarrow> None
      | Some s \<Rightarrow> (case js_String_elems xs of None \<Rightarrow> None | Some ss \<Rightarrow> Some (s # ss)))"

section \<open>Tasks and the view\<close>

text \<open>\<^verbatim>\<open>{id, title, due, completed, createdAt, order}\<close>\<close>

record task =
  task_id :: jsval
  title :: string
  due :: jsval
  completed :: bool
  createdAt :: jsval
  order :: int

text \<open>\<^verbatim>\<open>state = { search, filter, sort }\<close>\<close>

record view =
  search :: string
  filter_mode :: string
  sort_mode :: string

text \<open>
  The comparators of \<^verbatim>\<open>getFilteredSortedTasks\<close>. \<open>getTime v\<close> stands for
  \<^verbatim>\<open>new Date(v).getTime()\<close>, the platform's reading of a date: an integer of
  milliseconds, or NaN for what it cannot read.
\<close>

definition byOrder :: "task \<Rightarrow> task \<Rightarrow> number" where
  "byOrder a b = Fin (order a - order b)"

definition byDue :: "(jsval \<Rightarrow> number) \<Rightarrow> task \<Rightarrow> task \<Rightarrow> number" where
  "byDue getTime a b =
     (let da = (if truthy (due a) then getTime (due a) else PosInfinity);
          db = (if truthy (due b) then getTime (due b) else PosInfinity)
      in minus_number da db)"

definition byCreated :: "(jsval \<Rightarrow> number) \<Rightarrow> task \<Rightarrow> task \<Rightarrow> number" where
  "byCreated getTime a b = minus_number (getTime (createdAt a)) (getTime (createdAt b))"

definition getFilteredSortedTasks :: "(jsval \<Rightarrow> number) \<Rightarrow> view \<Rightarrow> task list \<Rightarrow> task list" where
  "getFilteredSortedTasks getTime st ts =
     (let arr0 = ts;
          arr1 = (if search st \<noteq> []
                  then filter (\<lambda>t. js_includes (toLowerCase (title t)) (search st)) arr0
                  else arr0);
          arr2 = (if filter_mode st = ''done'' then filter (\<lambda>t. completed t) arr1 else arr1);
          arr3 = (if filter_mode st = ''todo'' then filter (\<lambda>t. \<not> completed t) arr2 else arr2)
      in if sort_mode st = ''manual'' then js_sort byOrder arr3
         else if sort_mode st = ''dueAsc'' then js_sort (byDue getTime) arr3
         else if sort_mode st = ''dueDesc'' then js_sort (\<lambda>a b. byDue getTime b a) arr3
         else if sort_mode st = ''createdAsc'' then js_sort (byCreated getTime) arr3
         else if sort_mode st = ''createdDesc'' then js_sort (\<lambda>a b. byCreated getTime b a) arr3
         else js_sort byOrder arr3)"

text \<open>A task has a due date when \<^verbatim>\<open>a.due\<close> is truthy; the comparator reads no other.\<close>

definition dated :: "task \<Rightarrow> bool" where
  "dated t = truthy (due t)"

fun is_Fin :: "number \<Rightarrow> bool" where
  "is_Fin (Fin n) = True"
| "is_Fin x = False"

definition dues_readable :: "(jsval \<Rightarrow> number) \<Rightarrow> task list \<Rightarrow> bool" where
  "dues_readable getTime ts = list_all (\<lambda>t. \<not> dated t \<or> is_Fin (getTime (due t))) ts"

section \<open>Storage\<close>

text \<open>
  The item of \<^verbatim>\<open>localStorage\<close> under \<^verbatim>\<open>LS_KEY\<close> is text, or missing (\<open>None\<close>).
  \<^verbatim>\<open>JSON.parse\<close> and \<^verbatim>\<open>JSON.stringify\<close> are the platform's: the model keeps a text
  that \<^verbatim>\<open>JSON.parse\<close> reads as the value it reads (\<open>JSON v\<close>), and a text that makes
  it throw SyntaxError as that text (\<open>NotJSON txt\<close>; the empty text is one).
  Writing \<^verbatim>\<open>JSON.stringify(x)\<close> leaves a text that reads back as \<open>x\<close>.
\<close>

datatype blob = NotJSON string | JSON jsval

datatype exception = SyntaxError | TypeError

text \<open>
  What the platform hands out at one moment: the text of
  \<^verbatim>\<open>Math.random().toString(36)\<close>, \<^verbatim>\<open>Date.now()\<close> and \<^verbatim>\<open>new Date().toISOString()\<close>.
\<close>

record readings =
  random36 :: string
  date_now :: nat
  iso_now :: string

definition uid :: "readings \<Rightarrow> string" where
  "uid e = drop 2 (random36 e) @ toStringRadix 36 (date_now e)"

text \<open>\<^verbatim>\<open>JSON.stringify(tasks)\<close>, as the value its text reads back to.\<close>

definition task_json :: "task \<Rightarrow> jsval" where
  "task_json t = JObj
     [(''id'', task_id t), (''title'', JStr (title t)), (''due'', due t),
      (''completed'', JBool (completed t)), (''createdAt'', createdAt t),
      (''order'', JNum (order t))]"

definition JSON_stringify :: "task list \<Rightarrow> blob" where
  "JSON_stringify ts = JSON (JArr (map task_json ts))"

text \<open>\<^verbatim>\<open>a || b\<close> where \<open>a\<close> is a property that may be missing.\<close>

fun or_else :: "jsval option \<Rightarrow> jsval \<Rightarrow> jsval" where
  "or_else None d = d"
| "or_else (Some v) d = (if truthy v then v else d)"

text \<open>
  The callback of \<^verbatim>\<open>parsed.map((t, i) => ...)\<close> in \<^verbatim>\<open>loadTasks\<close>. Reading a property
  of null throws TypeError, and so can \<^verbatim>\<open>String(...)\<close>.
\<close>

definition normalize :: "readings \<Rightarrow> nat \<Rightarrow> jsval \<Rightarrow> exception + task" where
  "normalize e i t =
     (if t = JNull then Inl TypeError
      else case js_String (or_else (get_prop t ''title'') (JStr [])) of
        None \<Rightarrow> Inl TypeError
      | Some s \<Rightarrow> Inr
          \<lparr> task_id = or_else (get_prop t ''id'') (JStr (uid e)),
            title = trim s,
            due = or_else (get_prop t ''due'') (JStr []),
            completed = truthy_opt (get_prop t ''completed''),
            createdAt = or_else (get_prop t ''createdAt'') (JStr (iso_now e)),
            order = (case get_prop t ''order'' of Some (JNum n) \<Rightarrow> n | _ \<Rightarrow> int i) \<rparr>)"

fun normalize_from :: "(nat \<Rightarrow> readings) \<Rightarrow> nat \<Rightarrow> jsval list \<Rightarrow> exception + task list" where
  "normalize_from env i [] = Inr []"
| "normalize_from env i (t # ts) =
     (case normalize (env i) i t of
        Inl x \<Rightarrow> Inl x
      | Inr r \<Rightarrow> (case normalize_from env (Suc i) ts of
                   Inl x \<Rightarrow> Inl x
                 | Inr rs \<Rightarrow> Inr (r # rs)))"

text \<open>
  The body of the \<^verbatim>\<open>try\<close> in \<^verbatim>\<open>loadTasks\<close>; \<open>env i\<close> is what the platform hands out
  while record \<open>i\<close> is read.
\<close>

definition loadTasks_try :: "(nat \<Rightarrow> readings) \<Rightarrow> blob option \<Rightarrow> exception + task list" where
  "loadTasks_try env raw =
     (case raw of
        None \<Rightarrow> Inr []
      | Some (NotJSON txt) \<Rightarrow> (if txt = [] then Inr [] else Inl SyntaxError)
      | Some (JSON parsed) \<Rightarrow>
          (case parsed of JArr rs \<Rightarrow> normalize_from env 0 rs | _ \<Rightarrow> Inr []))"

definition loadTasks :: "(nat \<Rightarrow> readings) \<Rightarrow> blob option \<Rightarrow> task list" where
  "loadTasks env raw = (case loadTasks_try env raw of Inl x \<Rightarrow> [] | Inr ts \<Rightarrow> ts)"

section \<open>The task collection and its operations\<close>

text \<open>
  The mutable variables of the module: \<^verbatim>\<open>tasks\<close>, \<^verbatim>\<open>state\<close> and the item of
  \<^verbatim>\<open>localStorage\<close>. Rendering is not modelled. The source comes in two variants
  whose functions on the collection are the same line for line, but for the
  \<^verbatim>\<open>dragend\<close> handler; the definitions follow \<^verbatim>\<open>app.js\<close>.
\<close>

record app =
  tasks :: "task list"
  state :: view
  localStorage :: "blob option"

text \<open>
  The click handlers of the Add and the Save button refuse a title that trims to
  nothing: they put the focus back on the title input and return. That refusal is the
  model's \<open>ValidationError\<close>; a handler gives back \<open>None\<close> when it ran to its end,
  and with it the variables as it leaves them. The functions \<^verbatim>\<open>addTask\<close>,
  \<^verbatim>\<open>updateTask\<close> and \<^verbatim>\<open>deleteTask\<close> return \<^verbatim>\<open>undefined\<close> on every path and throw
  on none: they are functions on the variables.
\<close>

datatype error = ValidationError

definition saveTasks :: "task list \<Rightarrow> app \<Rightarrow> app" where
  "saveTasks ts s = s\<lparr>localStorage := Some (JSON_stringify ts)\<rparr>"

definition next_order :: "task list \<Rightarrow> int" where
  "next_order ts = (case map order ts of [] \<Rightarrow> 0 | x # xs \<Rightarrow> js_plus (fold max xs x) 1)"

definition addTask :: "readings \<Rightarrow> string \<Rightarrow> string \<Rightarrow> app \<Rightarrow> app" where
  "addTask e ttl d s =
     (let t = \<lparr> task_id = JStr (uid e), title = ttl, due = JStr d, completed = False,
                createdAt = JStr (iso_now e), order = next_order (tasks s) \<rparr>;
          s1 = s\<lparr>tasks := tasks s @ [t]\<rparr>
      in saveTasks (tasks s1) s1)"

text \<open>The click handler of \<^verbatim>\<open>addBtn\<close>, on the texts of the two inputs.\<close>

definition addBtn_click :: "readings \<Rightarrow> string \<Rightarrow> string \<Rightarrow> app \<Rightarrow> error option \<times> app" where
  "addBtn_click e titleInput_value dateInput_value s =
     (let ttl = trim titleInput_value; d = dateInput_value
      in if ttl = [] then (Some ValidationError, s)
         else (None, addTask e ttl d s))"

text \<open>
  The patches the program builds: \<^verbatim>\<open>{ completed }\<close> and \<^verbatim>\<open>{ title, due }\<close>.
  \<^verbatim>\<open>{ ...t, ...patch }\<close> takes from the patch the fields it has.
\<close>

record patch =
  patch_title :: "string option"
  patch_due :: "string option"
  patch_completed :: "bool option"

definition spread :: "task \<Rightarrow> patch \<Rightarrow> task" where
  "spread t p =
     t\<lparr> title := (case patch_title p of None \<Rightarrow> title t | Some x \<Rightarrow> x),
        due := (case patch_due p of None \<Rightarrow> due t | Some x \<Rightarrow> JStr x),
        completed := (case patch_completed p of None \<Rightarrow> completed t | Some x \<Rightarrow> x) \<rparr>"

fun findIndex :: "('a \<Rightarrow> bool) \<Rightarrow> 'a list \<Rightarrow> nat option" where
  "findIndex P [] = None"
| "findIndex P (x # xs) = (if P x then Some 0 else map_option Suc (findIndex P xs))"

definition updateTask :: "jsval \<Rightarrow> patch \<Rightarrow> app \<Rightarrow> app" where
  "updateTask i p s =
     (case findIndex (\<lambda>t. task_id t = i) (tasks s) of
        None \<Rightarrow> s
      | Some idx \<Rightarrow>
          (let s1 = s\<lparr>tasks := (tasks s)[idx := spread (tasks s ! idx) p]\<rparr>
           in saveTasks (tasks s1) s1))"

text \<open>The Save button of the inline editor of task \<open>i\<close>, on the texts of its inputs.\<close>

definition save_click :: "jsval \<Rightarrow> string \<Rightarrow> string \<Rightarrow> app \<Rightarrow> error option \<times> app" where
  "save_click i titleInput_value dateInput_value s =
     (let newTitle = trim titleInput_value
      in if newTitle = [] then (Some ValidationError, s)
         else (None, updateTask i
                \<lparr> patch_title = Some newTitle, patch_due = Some dateInput_value,
                  patch_completed = None \<rparr> s))"

text \<open>\<^verbatim>\<open>tasks.sort((a,b) => a.order - b.order).forEach((t,i) => t.order = i)\<close>\<close>

fun forEach_order :: "nat \<Rightarrow> task list \<Rightarrow> task list" where
  "forEach_order i [] = []"
| "forEach_order i (t # ts) = t\<lparr>order := int i\<rparr> # forEach_order (Suc i) ts"

definition reindexOrder :: "task list \<Rightarrow> task list" where
  "reindexOrder ts = forEach_order 0 (js_sort byOrder ts)"

definition deleteTask :: "jsval \<Rightarrow> app \<Rightarrow> app" where
  "deleteTask i s =
     (let s1 = s\<lparr>tasks := filter (\<lambda>t. task_id t \<noteq> i) (tasks s)\<rparr>;
          s2 = s1\<lparr>tasks := reindexOrder (tasks s1)\<rparr>
      in saveTasks (tasks s2) s2)"

text \<open>The click handler of \<^verbatim>\<open>clearAllBtn\<close>.\<close>

definition clearAllBtn_click :: "app \<Rightarrow> app" where
  "clearAllBtn_click s =
     (if \<not> list_ex completed (tasks s) then s
      else let s1 = s\<lparr>tasks := filter (\<lambda>t. \<not> completed t) (tasks s)\<rparr>;
               s2 = s1\<lparr>tasks := reindexOrder (tasks s1)\<rparr>
           in saveTasks (tasks s2) s2)"

text \<open>
  The \<^verbatim>\<open>dragend\<close> handler, on the \<^verbatim>\<open>data-id\<close> texts of the items in the order the
  list shows them: \<^verbatim>\<open>const t = tasks.find(tt => tt.id === id); if (t) t.order = index;\<close>
  It then saves and puts the sort back to manual (the second variant of the source
  saves and renders again, leaving the sort as it is).
\<close>

fun find_set_order :: "jsval \<Rightarrow> int \<Rightarrow> task list \<Rightarrow> task list" where
  "find_set_order i n [] = []"
| "find_set_order i n (t # ts) =
     (if task_id t = i then t\<lparr>order := n\<rparr> # ts else t # find_set_order i n ts)"

fun forEach_id :: "nat \<Rightarrow> string list \<Rightarrow> task list \<Rightarrow> task list" where
  "forEach_id index [] ts = ts"
| "forEach_id index (x # xs) ts = forEach_id (Suc index) xs (find_set_order (JStr x) (int index) ts)"

definition dragend :: "string list \<Rightarrow> app \<Rightarrow> app" where
  "dragend ids s =
     (let s1 = s\<lparr>tasks := forEach_id 0 ids (tasks s)\<rparr>;
          s2 = saveTasks (tasks s1) s1
      in s2\<lparr>state := (state s2)\<lparr>sort_mode := ''manual''\<rparr>\<rparr>)"

text \<open>
  \<^verbatim>\<open>xs.lastIndexOf(x)\<close>: the index of the last \<open>x\<close> in \<open>xs\<close>, \<open>None\<close> for -1. The
  program does not call it; it says which of the assignments of the \<^verbatim>\<open>dragend\<close>
  handler to one task is the last.
\<close>

fun lastIndexOf :: "'a list \<Rightarrow> 'a \<Rightarrow> nat option" where
  "lastIndexOf [] x = None"
| "lastIndexOf (y # ys) x =
     (case lastIndexOf ys x of
        Some j \<Rightarrow> Some (Suc j)
      | None \<Rightarrow> if y = x then Some 0 else None)"

text \<open>The array of \<^verbatim>\<open>getFilteredSortedTasks\<close> as it reaches the \<^verbatim>\<open>switch\<close>.\<close>

definition searched_filtered :: "view \<Rightarrow> task list \<Rightarrow> task list" where
  "searched_filtered st ts =
     (let arr1 = (if search st \<noteq> []
                  then filter (\<lambda>t. js_includes (toLowerCase (title t)) (search st)) ts
                  else ts);
          arr2 = (if filter_mode st = ''done'' then filter (\<lambda>t. completed t) arr1 else arr1)
      in (if filter_mode st = ''todo'' then filter (\<lambda>t. \<not> completed t) arr2 else arr2))"

section \<open>Inputs for running the definitions\<close>

text \<open>
  A reading of dates for the examples: the date-only form \<^verbatim>\<open>YYYY-MM-DD\<close> that
  \<^verbatim>\<open><input type="date">\<close> gives, as milliseconds since 1970 in UTC, and NaN for every
  other value. The theorems hold for every reading, this one among them.
\<close>

definition digit_of :: "char \<Rightarrow> nat option" where
  "digit_of c =
     (let n = (of_char c :: nat) in if 48 \<le> n \<and> n \<le> 57 then Some (n - 48) else None)"

fun digits_from :: "nat \<Rightarrow> string \<Rightarrow> nat option" where
  "digits_from acc [] = Some acc"
| "digits_from acc (c # cs) =
     (case digit_of c of None \<Rightarrow> None | Some d \<Rightarrow> digits_from (10 * acc + d) cs)"

definition days_in_month :: "nat \<Rightarrow> nat \<Rightarrow> nat" where
  "days_in_month y m =
     (if m = 2 then (if y mod 4 = 0 \<and> (y mod 100 \<noteq> 0 \<or> y mod 400 = 0) then 29 else 28)
      else if m \<in> {4, 6, 9, 11} then 30 else 31)"

definition days_from_civil :: "int \<Rightarrow> int \<Rightarrow> int \<Rightarrow> int" where
  "days_from_civil y m d =
     (let y1 = (if m \<le> 2 then y - 1 else y);
          era = y1 div 400;
          yoe = y1 - era * 400;
          mp = (m + 9) mod 12;
          doy = (153 * mp + 2) div 5 + d - 1;
          doe = yoe * 365 + yoe div 4 - yoe div 100 + doy
      in era * 146097 + doe - 719468)"

definition iso_getTime :: "jsval \<Rightarrow> number" where
  "iso_getTime v =
     (case v of
        JStr s \<Rightarrow>
          (if length s = 10 \<and> s ! 4 = CHR ''-'' \<and> s ! 7 = CHR ''-''
           then (case (digits_from 0 (take 4 s), digits_from 0 (take 2 (drop 5 s)),
                       digits_from 0 (drop 8 s)) of
                   (Some y, Some m, Some d) \<Rightarrow>
                     (if 1 \<le> m \<and> m \<le> 12 \<and> 1 \<le> d \<and> d \<le> days_in_month y m
                      then Fin (days_from_civil (int y) (int m) (int d) * 86400000)
                      else NaN)
                 | _ \<Rightarrow> NaN)
           else NaN)
      | _ \<Rightarrow> NaN)"

definition mk :: "string \<Rightarrow> string \<Rightarrow> string \<Rightarrow> bool \<Rightarrow> int \<Rightarrow> task" where
  "mk i ttl d c n =
     \<lparr> task_id = JStr i, title = ttl, due = JStr d, completed = c,
       createdAt = JStr ''2024-01-01T00:00:00.000Z'', order = n \<rparr>"

text \<open>The three tasks of the specification's example of sorting by due date.\<close>

definition due_example :: "task list" where
  "due_example =
     [mk ''a'' ''A'' ''2024-01-10'' False 0, mk ''b'' ''B'' [] False 1,
      mk ''c'' ''C'' ''2024-01-05'' False 2]"

definition view_of :: "string \<Rightarrow> view" where
  "view_of m = \<lparr> search = [], filter_mode = ''all'', sort_mode = m \<rparr>"

section \<open>Reading the results\<close>

text \<open>A task with its \<^verbatim>\<open>order\<close> put aside, to compare tasks in everything else.\<close>

definition forget_order :: "task \<Rightarrow> task" where
  "forget_order t = t\<lparr>order := 0\<rparr>"

text \<open>
  \<open>reindexed surv res\<close>: \<open>res\<close> holds the tasks of \<open>surv\<close>, each once, with the orders
  \<open>0, ..., N - 1\<close> for \<open>N\<close> the number of tasks of \<open>surv\<close>, the task at position \<open>k\<close>
  having order \<open>k\<close>, and a task whose order was smaller than another's before still has
  the smaller one.
\<close>

definition reindexed :: "task list \<Rightarrow> task list \<Rightarrow> bool" where
  "reindexed surv res \<longleftrightarrow>
     length res = length surv
     \<and> order ` set res = {0 ..< int (length surv)}
     \<and> (\<exists>olds. mset olds = mset surv
           \<and> (\<forall>k < length surv. res ! k = (olds ! k)\<lparr>order := int k\<rparr>)
           \<and> (\<forall>k l. k < length surv \<and> l < length surv \<and> order (olds ! k) < order (olds ! l)
                  \<longrightarrow> k < l))"

text \<open>States to run the operations on.\<close>

definition stored :: "task list \<Rightarrow> app" where
  "stored ts = \<lparr> tasks = ts, state = view_of ''manual'', localStorage = Some (JSON_stringify ts) \<rparr>"

definition two_tasks :: app where
  "two_tasks = stored [mk ''a'' ''A'' [] False 0, mk ''b'' ''B'' [] False 1]"

definition three_tasks :: app where
  "three_tasks = stored [mk ''a'' ''A'' [] False 0, mk ''b'' ''B'' [] True 1, mk ''c'' ''C'' [] False 2]"

definition twin_tasks :: app where
  "twin_tasks = stored [mk ''a'' ''A'' [] False 5, mk ''a'' ''B'' [] False 7]"

definition env0 :: "nat \<Rightarrow> readings" where
  "env0 i = \<lparr> random36 = ''0.4fzyo82mvyr'', date_now = 1704412800000 + i,
              iso_now = ''2024-01-05T00:00:00.000Z'' \<rparr>"

definition sparse_blob :: "blob option" where
  "sparse_blob = Some (JSON (JArr [JObj [(''id'', JStr ''a''), (''title'', JStr ''A''), (''order'', JNum 5)]]))"

definition started :: "blob option \<Rightarrow> app" where
  "started item = \<lparr> tasks = loadTasks env0 item, state = view_of ''manual'', localStorage = item \<rparr>"

definition done_patch :: patch where
  "done_patch = \<lparr> patch_title = None, patch_due = None, patch_completed = Some True \<rparr>"

definition empty_app :: app where
  "empty_app = \<lparr> tasks = [], state = view_of ''manual'', localStorage = None \<rparr>"

text \<open>
  A record of the stored array that \<^verbatim>\<open>loadTasks\<close> can read without an exception: it
  is not null and its title converts to text.
\<close>

definition readable :: "jsval \<Rightarrow> bool" where
  "readable r \<longleftrightarrow> r \<noteq> JNull \<and> js_String (or_else (get_prop r ''title'') (JStr [])) \<noteq> None"

text \<open>
  \<open>normalized e i r t\<close>: task \<open>t\<close> is record \<open>r\<close> at position \<open>i\<close> made regular, with
  \<open>e\<close> what the platform hands out at that moment. A field that is missing or falsy
  takes its default: a fresh id, the empty title, no due date, the current time; the
  title is text and trimmed, completed is the truthiness of what is stored, and the
  order is the stored number or else the position.
\<close>

definition normalized :: "readings \<Rightarrow> nat \<Rightarrow> jsval \<Rightarrow> task \<Rightarrow> bool" where
  "normalized e i r t \<longleftrightarrow>
     task_id t = (case get_prop r ''id'' of
                    None \<Rightarrow> JStr (uid e)
                  | Some v \<Rightarrow> if truthy v then v else JStr (uid e))
   \<and> Some (title t) = map_option trim (js_String (case get_prop r ''title'' of
                    None \<Rightarrow> JStr []
                  | Some v \<Rightarrow> if truthy v then v else JStr []))
   \<and> trim (title t) = title t
   \<and> due t = (case get_prop r ''due'' of
                 None \<Rightarrow> JStr []
               | Some v \<Rightarrow> if truthy v then v else JStr [])
   \<and> completed t = (case get_prop r ''completed'' of None \<Rightarrow> False | Some v \<Rightarrow> truthy v)
   \<and> createdAt t = (case get_prop r ''createdAt'' of
                       None \<Rightarrow> JStr (iso_now e)
                     | Some v \<Rightarrow> if truthy v then v else JStr (iso_now e))
   \<and> order t = (case get_prop r ''order'' of Some (JNum n) \<Rightarrow> n | _ \<Rightarrow> int i)"

text \<open>
  A collection as the data model of the specification has it: ids that are present and
  pairwise different, titles that are non-empty and trimmed, a due date or none, a
  creation time. Orders are numbers by their type.
\<close>

definition well_formed :: "task list \<Rightarrow> bool" where
  "well_formed ts \<longleftrightarrow>
     distinct (map task_id ts)
   \<and> list_all (\<lambda>t. truthy (task_id t) \<and> title t \<noteq> [] \<and> trim (title t) = title t
                 \<and> (due t = JStr [] \<or> truthy (due t)) \<and> truthy (createdAt t)) ts"

text \<open>Stored arrays to run \<^verbatim>\<open>loadTasks\<close> on.\<close>

definition mixed_records :: "jsval list" where
  "mixed_records =
     [JObj [(''title'', JStr ''  Buy milk ''), (''completed'', JNum 1), (''order'', JStr ''7'')],
      JObj [(''id'', JStr ''k1''), (''title'', JNum 42), (''due'', JStr ''2024-01-10''),
            (''completed'', JBool False), (''createdAt'', JStr ''2023-12-31T10:00:00.000Z''),
            (''order'', JNum 5)]]"

definition big_order_blob :: "blob option" where
  "big_order_blob = Some (JSON (JArr
     [JObj [(''id'', JStr ''a''), (''title'', JStr ''A''), (''order'', JNum 9007199254740992)]]))"

definition null_blob :: "blob option" where
  "null_blob = Some (JSON (JArr [JObj [(''title'', JStr ''A'')], JNull]))"

text \<open>
  What \<^verbatim>\<open>loadTasks\<close> keeps as it is: an id and a creation time that are truthy, a
  trimmed title, a due date that is truthy or the empty text.
\<close>

definition storable :: "task \<Rightarrow> bool" where
  "storable t \<longleftrightarrow> truthy (task_id t) \<and> trim (title t) = title t
     \<and> (due t = JStr [] \<or> truthy (due t)) \<and> truthy (createdAt t)"

section \<open>Sorting: what the comparators give\<close>

lemmas iso_getTime_simps =
  iso_getTime_def digit_of_def days_in_month_def days_from_civil_def

lemma set_insert_by: "set (insert_by cmp x ys) = insert x (set ys)"
  by (induction ys) auto

lemma set_js_sort: "set (js_sort cmp xs) = set xs"
  by (induction xs) (auto simp: js_sort_def set_insert_by)

lemma insert_by_classes:
  assumes "\<And>y. y \<in> set ys \<Longrightarrow> P x \<Longrightarrow> \<not> P y \<Longrightarrow> \<not> positive (cmp x y)"
    and "\<And>y. y \<in> set ys \<Longrightarrow> \<not> P x \<Longrightarrow> P y \<Longrightarrow> positive (cmp x y)"
    and "sorted_wrt (\<lambda>a b. P b \<longrightarrow> P a) ys"
  shows "sorted_wrt (\<lambda>a b. P b \<longrightarrow> P a) (insert_by cmp x ys)"
  using assms
proof (induction ys)
  case Nil
  then show ?case by simp
next
  case (Cons y ys)
  show ?case
  proof (cases "positive (cmp x y)")
    case True
    have "sorted_wrt (\<lambda>a b. P b \<longrightarrow> P a) (insert_by cmp x ys)"
      using Cons by simp
    moreover have "P x \<longrightarrow> P y" using Cons.prems(1)[of y] True by auto
    ultimately show ?thesis using True Cons.prems(3) by (auto simp: set_insert_by)
  next
    case False
    have "P y \<longrightarrow> P x" using Cons.prems(2)[of y] False by auto
    then show ?thesis using False Cons.prems(3) by auto
  qed
qed

lemma js_sort_classes:
  assumes "\<And>x y. x \<in> set xs \<Longrightarrow> y \<in> set xs \<Longrightarrow> P x \<Longrightarrow> \<not> P y \<Longrightarrow> \<not> positive (cmp x y)"
    and "\<And>x y. x \<in> set xs \<Longrightarrow> y \<in> set xs \<Longrightarrow> \<not> P x \<Longrightarrow> P y \<Longrightarrow> positive (cmp x y)"
  shows "sorted_wrt (\<lambda>a b. P b \<longrightarrow> P a) (js_sort cmp xs)"
  using assms
proof (induction xs)
  case Nil
  then show ?case by (simp add: js_sort_def)
next
  case (Cons x xs)
  have ih: "sorted_wrt (\<lambda>a b. P b \<longrightarrow> P a) (js_sort cmp xs)"
    using Cons by simp
  have "sorted_wrt (\<lambda>a b. P b \<longrightarrow> P a) (insert_by cmp x (js_sort cmp xs))"
    by (rule insert_by_classes) (use Cons.prems ih in \<open>auto simp: set_js_sort\<close>)
  then show ?case by (simp add: js_sort_def)
qed

lemma byDue_dated_undated:
  assumes "dated a" "is_Fin (getTime (due a))" "\<not> dated b"
  shows "byDue getTime a b = NegInfinity" "byDue getTime b a = PosInfinity"
  using assms by (cases "getTime (due a)"; simp add: byDue_def dated_def)+

lemma dues_readable_filter: "dues_readable g ts \<Longrightarrow> dues_readable g (filter P ts)"
  by (simp add: dues_readable_def list_all_iff)

lemma dueAsc_sorted:
  assumes "dues_readable getTime xs"
  shows "sorted_wrt (\<lambda>a b. dated b \<longrightarrow> dated a) (js_sort (byDue getTime) xs)"
  by (rule js_sort_classes)
     (use assms in \<open>auto simp: dues_readable_def list_all_iff byDue_dated_undated\<close>)

lemma dueDesc_sorted:
  assumes "dues_readable getTime xs"
  shows "sorted_wrt (\<lambda>a b. \<not> dated b \<longrightarrow> \<not> dated a) (js_sort (\<lambda>a b. byDue getTime b a) xs)"
  by (rule js_sort_classes)
     (use assms in \<open>auto simp: dues_readable_def list_all_iff byDue_dated_undated\<close>)

lemma dues_readable_searched: "dues_readable g ts \<Longrightarrow> dues_readable g (searched_filtered st ts)"
  by (simp add: searched_filtered_def Let_def dues_readable_filter)

lemma project_dueAsc:
  "sort_mode st = ''dueAsc'' \<Longrightarrow>
   getFilteredSortedTasks g st ts = js_sort (byDue g) (searched_filtered st ts)"
  by (simp add: getFilteredSortedTasks_def searched_filtered_def Let_def)

lemma project_dueDesc:
  "sort_mode st = ''dueDesc'' \<Longrightarrow>
   getFilteredSortedTasks g st ts = js_sort (\<lambda>a b. byDue g b a) (searched_filtered st ts)"
  by (simp add: getFilteredSortedTasks_def searched_filtered_def Let_def)

section \<open>Due dates in the view\<close>

text \<open>
  C1 (amended). Where every due date of the collection is one the platform can read:
  under \<^verbatim>\<open>dueAsc\<close> every task with a due date stands before every task without one,
  and under \<^verbatim>\<open>dueDesc\<close>, whose comparator is the same one with its arguments
  exchanged, every task without a due date stands before every task with one.
\<close>

theorem due_sort_undated_position:
  assumes "dues_readable getTime ts"
  shows "(sort_mode st = ''dueAsc'' \<longrightarrow>
            (\<forall>i j. i < length (getFilteredSortedTasks getTime st ts)
                 \<and> j < length (getFilteredSortedTasks getTime st ts)
                 \<and> dated (getFilteredSortedTasks getTime st ts ! i)
                 \<and> \<not> dated (getFilteredSortedTasks getTime st ts ! j) \<longrightarrow> i < j))
       \<and> (sort_mode st = ''dueDesc'' \<longrightarrow>
            (\<forall>i j. i < length (getFilteredSortedTasks getTime st ts)
                 \<and> j < length (getFilteredSortedTasks getTime st ts)
                 \<and> \<not> dated (getFilteredSortedTasks getTime st ts ! i)
                 \<and> dated (getFilteredSortedTasks getTime st ts ! j) \<longrightarrow> i < j))"
proof (intro conjI impI allI)
  fix i j
  let ?r = "getFilteredSortedTasks getTime st ts"
  assume m: "sort_mode st = ''dueAsc''"
    and ij: "i < length ?r \<and> j < length ?r \<and> dated (?r ! i) \<and> \<not> dated (?r ! j)"
  have "sorted_wrt (\<lambda>a b. dated b \<longrightarrow> dated a) ?r"
    using dueAsc_sorted [OF dues_readable_searched [OF assms]] m by (simp add: project_dueAsc)
  then have "j < i \<Longrightarrow> dated (?r ! i) \<longrightarrow> dated (?r ! j)"
    using ij sorted_wrt_nth_less [of _ ?r j i] by blast
  with ij show "i < j" by (cases i j rule: linorder_cases) auto
next
  fix i j
  let ?r = "getFilteredSortedTasks getTime st ts"
  assume m: "sort_mode st = ''dueDesc''"
    and ij: "i < length ?r \<and> j < length ?r \<and> \<not> dated (?r ! i) \<and> dated (?r ! j)"
  have "sorted_wrt (\<lambda>a b. \<not> dated b \<longrightarrow> \<not> dated a) ?r"
    using dueDesc_sorted [OF dues_readable_searched [OF assms]] m by (simp add: project_dueDesc)
  then have "j < i \<Longrightarrow> \<not> dated (?r ! i) \<longrightarrow> \<not> dated (?r ! j)"
    using ij sorted_wrt_nth_less [of _ ?r j i] by blast
  with ij show "i < j" by (cases i j rule: linorder_cases) auto
qed

theorem due_sort_undated_position_witness:
  "dues_readable iso_getTime due_example
   \<and> sort_mode (view_of ''dueAsc'') = ''dueAsc''
   \<and> 1 < length (getFilteredSortedTasks iso_getTime (view_of ''dueAsc'') due_example)
   \<and> 2 < length (getFilteredSortedTasks iso_getTime (view_of ''dueAsc'') due_example)
   \<and> dated (getFilteredSortedTasks iso_getTime (view_of ''dueAsc'') due_example ! 1)
   \<and> \<not> dated (getFilteredSortedTasks iso_getTime (view_of ''dueAsc'') due_example ! 2)
   \<and> (1::nat) < 2"
proof -
  have h: "dues_readable iso_getTime due_example"
    by (simp add: dues_readable_def due_example_def mk_def dated_def iso_getTime_simps)
  have r: "getFilteredSortedTasks iso_getTime (view_of ''dueAsc'') due_example
             = [mk ''c'' ''C'' ''2024-01-05'' False 2, mk ''a'' ''A'' ''2024-01-10'' False 0,
                mk ''b'' ''B'' [] False 1]"
    by (simp add: getFilteredSortedTasks_def view_of_def due_example_def mk_def js_sort_def
          byDue_def iso_getTime_simps)
  show ?thesis
    using h due_sort_undated_position [OF h, of "view_of ''dueAsc''"]
    by (simp add: r) (simp add: view_of_def mk_def dated_def)
qed

text \<open>
  C1 as stated fails under \<^verbatim>\<open>dueDesc\<close>: on the example of the specification the task
  without a due date comes out first, before both dated ones.
\<close>

theorem dueDesc_undated_first_counterexample:
  "map task_id (getFilteredSortedTasks iso_getTime (view_of ''dueDesc'') due_example)
     = [JStr ''b'', JStr ''a'', JStr ''c'']
   \<and> \<not> dated (getFilteredSortedTasks iso_getTime (view_of ''dueDesc'') due_example ! 0)
   \<and> dated (getFilteredSortedTasks iso_getTime (view_of ''dueDesc'') due_example ! 1)"
  by (simp add: getFilteredSortedTasks_def view_of_def due_example_def mk_def js_sort_def
        byDue_def dated_def iso_getTime_simps)

section \<open>Reindexing\<close>

lemmas run_simps =
  stored_def two_tasks_def three_tasks_def mk_def view_of_def
  deleteTask_def clearAllBtn_click_def dragend_def saveTasks_def reindexOrder_def
  js_sort_def byOrder_def JSON_stringify_def task_json_def Let_def

lemma insert_by_byOrder: "insert_by byOrder x ys = insort_key order x ys"
  by (induction ys) (auto simp: byOrder_def)

lemma js_sort_byOrder: "js_sort byOrder ts = sort_key order ts"
  by (induction ts) (simp_all add: js_sort_def insert_by_byOrder)

lemma length_forEach_order [simp]: "length (forEach_order i ts) = length ts"
  by (induction ts arbitrary: i) auto

lemma nth_forEach_order:
  "k < length ts \<Longrightarrow> forEach_order i ts ! k = (ts ! k)\<lparr>order := int (i + k)\<rparr>"
proof (induction ts arbitrary: i k)
  case Nil
  then show ?case by simp
next
  case (Cons t ts)
  then show ?case by (cases k) auto
qed

lemma map_order_forEach_order:
  "map order (forEach_order i ts) = map int [i ..< i + length ts]"
proof (induction ts arbitrary: i)
  case Nil
  then show ?case by simp
next
  case (Cons t ts)
  have "[i ..< i + length (t # ts)] = i # [Suc i ..< Suc i + length ts]"
    by (simp add: upt_rec)
  with Cons show ?case by simp
qed

lemma map_forget_forEach_order:
  "map forget_order (forEach_order i ts) = map forget_order ts"
  by (induction ts arbitrary: i) (auto simp: forget_order_def)

lemma length_reindexOrder [simp]: "length (reindexOrder ts) = length ts"
  by (simp add: reindexOrder_def js_sort_byOrder)

lemma map_order_reindexOrder: "map order (reindexOrder ts) = map int [0 ..< length ts]"
  by (simp add: reindexOrder_def map_order_forEach_order js_sort_byOrder)

lemma mset_forget_reindexOrder:
  "mset (map forget_order (reindexOrder ts)) = mset (map forget_order ts)"
  by (simp add: reindexOrder_def map_forget_forEach_order js_sort_byOrder)

lemma reindexOrder_reindexed: "reindexed ts (reindexOrder ts)"
proof -
  let ?olds = "sort_key order ts"
  have 1: "order ` set (reindexOrder ts) = {0 ..< int (length ts)}"
  proof -
    have "order ` set (reindexOrder ts) = set (map order (reindexOrder ts))" by simp
    also have "\<dots> = int ` {0 ..< length ts}" by (simp only: map_order_reindexOrder set_map set_upt)
    also have "\<dots> = {0 ..< int (length ts)}" by (simp add: image_int_atLeastLessThan)
    finally show ?thesis .
  qed
  have 2: "\<forall>k < length ts. reindexOrder ts ! k = (?olds ! k)\<lparr>order := int k\<rparr>"
    by (simp add: reindexOrder_def js_sort_byOrder nth_forEach_order)
  have s: "sorted (map order ?olds)" by simp
  have 3: "\<forall>k l. k < length ts \<and> l < length ts \<and> order (?olds ! k) < order (?olds ! l) \<longrightarrow> k < l"
  proof (intro allI impI)
    fix k l
    assume a: "k < length ts \<and> l < length ts \<and> order (?olds ! k) < order (?olds ! l)"
    show "k < l"
    proof (rule ccontr)
      assume "\<not> k < l"
      then have "l \<le> k" by simp
      then have "map order ?olds ! l \<le> map order ?olds ! k"
        using s a by (intro sorted_nth_mono) auto
      with a show False by simp
    qed
  qed
  have "mset ?olds = mset ts" by simp
  with 1 2 3 show ?thesis unfolding reindexed_def by (intro conjI exI [of _ ?olds]) auto
qed

lemma tasks_deleteTask:
  "tasks (deleteTask i s) = reindexOrder (filter (\<lambda>t. task_id t \<noteq> i) (tasks s))"
  by (simp add: deleteTask_def Let_def saveTasks_def)

lemma tasks_clearAll:
  "list_ex completed (tasks s) \<Longrightarrow>
   tasks (clearAllBtn_click s) = reindexOrder (filter (\<lambda>t. \<not> completed t) (tasks s))"
  by (simp add: clearAllBtn_click_def Let_def saveTasks_def)

lemma clearAll_none: "\<not> list_ex completed (tasks s) \<Longrightarrow> clearAllBtn_click s = s"
  by (simp add: clearAllBtn_click_def)

lemma localStorage_clearAll:
  "list_ex completed (tasks s) \<Longrightarrow>
   localStorage (clearAllBtn_click s) = Some (JSON_stringify (tasks (clearAllBtn_click s)))"
  by (simp add: clearAllBtn_click_def Let_def saveTasks_def)

lemma state_clearAll: "state (clearAllBtn_click s) = state s"
  by (simp add: clearAllBtn_click_def Let_def saveTasks_def)

lemma length_filter_completed:
  "length ts - length (filter (\<lambda>t. \<not> completed t) ts) = length (filter completed ts)"
  using sum_length_filter_compl [of completed ts] by simp

lemma filter_absent: "i \<notin> task_id ` set ts \<Longrightarrow> filter (\<lambda>t. task_id t \<noteq> i) ts = ts"
  by (induction ts) auto

lemma localStorage_deleteTask:
  "localStorage (deleteTask i s) = Some (JSON_stringify (tasks (deleteTask i s)))"
  by (simp add: deleteTask_def Let_def saveTasks_def)

lemma map_forget_reindexOrder:
  "map forget_order (reindexOrder ts) = map forget_order (js_sort byOrder ts)"
  by (simp add: reindexOrder_def map_forget_forEach_order)

text \<open>
  C2 (amended). After any delete, and after any clearCompleted that finds a completed
  task, the order values of the surviving tasks are exactly \<open>0, ..., N - 1\<close> for \<open>N\<close>
  survivors, and the reindexing keeps the survivors in the sequence of their orders
  from before.
\<close>

theorem order_contiguous_after_removal:
  "reindexed (filter (\<lambda>t. task_id t \<noteq> i) (tasks s)) (tasks (deleteTask i s))
   \<and> (list_ex completed (tasks s) \<longrightarrow>
        reindexed (filter (\<lambda>t. \<not> completed t) (tasks s)) (tasks (clearAllBtn_click s)))"
  by (simp add: tasks_deleteTask tasks_clearAll reindexOrder_reindexed)

theorem order_contiguous_after_removal_witness:
  "list_ex completed (tasks three_tasks)
   \<and> reindexed (filter (\<lambda>t. \<not> completed t) (tasks three_tasks))
        (tasks (clearAllBtn_click three_tasks))
   \<and> reindexed (filter (\<lambda>t. task_id t \<noteq> JStr ''a'') (tasks three_tasks))
        (tasks (deleteTask (JStr ''a'') three_tasks))
   \<and> map order (tasks (clearAllBtn_click three_tasks)) = [0, 1]"
proof -
  have h: "list_ex completed (tasks three_tasks)"
    by (simp add: three_tasks_def stored_def mk_def)
  have r: "map order (tasks (clearAllBtn_click three_tasks)) = [0, 1]"
    by (simp add: run_simps)
  show ?thesis
    using h r order_contiguous_after_removal [of "JStr ''a''" three_tasks] by simp
qed

text \<open>
  C2 as stated fails for a clearCompleted that finds nothing completed: it returns
  before it reindexes. After a drag in a view that shows only task \<open>b\<close>, both tasks
  have order 0, and clearCompleted leaves them so: two survivors, and no order 1.
\<close>

theorem clearCompleted_keeps_duplicate_orders_counterexample:
  "length (tasks (clearAllBtn_click (dragend [''b''] two_tasks))) = 2
  \<and> map order (tasks (clearAllBtn_click (dragend [''b''] two_tasks))) = [0, 0]
  \<and> 1 \<notin> order ` set (tasks (clearAllBtn_click (dragend [''b''] two_tasks)))"
  by (simp add: run_simps)

section \<open>Clearing the completed tasks\<close>

text \<open>
  C7 (amended). Where some task is completed, clearCompleted removes exactly the
  completed tasks, gives the survivors the orders \<open>0, ..., N - 1\<close>, and persists; the
  collection is then shorter by the number of completed tasks, which is what was
  removed (the handler itself returns no value). Where no task is completed it
  returns at once: nothing is removed, reindexed or written.
\<close>

theorem clearCompleted_effect:
  "(\<not> list_ex completed (tasks s) \<longrightarrow> clearAllBtn_click s = s)
   \<and> (list_ex completed (tasks s) \<longrightarrow>
        tasks (clearAllBtn_click s) = reindexOrder (filter (\<lambda>t. \<not> completed t) (tasks s))
      \<and> mset (map forget_order (tasks (clearAllBtn_click s)))
          = mset (map forget_order (filter (\<lambda>t. \<not> completed t) (tasks s)))
      \<and> map order (tasks (clearAllBtn_click s))
          = map int [0 ..< length (tasks (clearAllBtn_click s))]
      \<and> localStorage (clearAllBtn_click s)
          = Some (JSON_stringify (tasks (clearAllBtn_click s)))
      \<and> length (tasks s) - length (tasks (clearAllBtn_click s))
          = length (filter completed (tasks s))
      \<and> 0 < length (filter completed (tasks s))
      \<and> state (clearAllBtn_click s) = state s)"
proof (intro conjI impI)
  assume "\<not> list_ex completed (tasks s)"
  then show "clearAllBtn_click s = s" by (rule clearAll_none)
next
  assume h: "list_ex completed (tasks s)"
  show "tasks (clearAllBtn_click s) = reindexOrder (filter (\<lambda>t. \<not> completed t) (tasks s))"
    using h by (rule tasks_clearAll)
  show "mset (map forget_order (tasks (clearAllBtn_click s)))
          = mset (map forget_order (filter (\<lambda>t. \<not> completed t) (tasks s)))"
    by (simp only: tasks_clearAll [OF h] mset_forget_reindexOrder)
  show "map order (tasks (clearAllBtn_click s))
          = map int [0 ..< length (tasks (clearAllBtn_click s))]"
    by (simp only: tasks_clearAll [OF h] map_order_reindexOrder length_reindexOrder)
  show "localStorage (clearAllBtn_click s) = Some (JSON_stringify (tasks (clearAllBtn_click s)))"
    using h by (rule localStorage_clearAll)
  show "length (tasks s) - length (tasks (clearAllBtn_click s))
          = length (filter completed (tasks s))"
    by (simp only: tasks_clearAll [OF h] length_reindexOrder length_filter_completed)
  show "0 < length (filter completed (tasks s))"
    using h by (auto simp: list_ex_iff filter_empty_conv)
  show "state (clearAllBtn_click s) = state s" by (rule state_clearAll)
qed

theorem clearCompleted_effect_witness:
  "list_ex completed (tasks three_tasks)
   \<and> map task_id (tasks (clearAllBtn_click three_tasks)) = [JStr ''a'', JStr ''c'']
   \<and> map order (tasks (clearAllBtn_click three_tasks)) = [0, 1]
   \<and> localStorage (clearAllBtn_click three_tasks)
       = Some (JSON_stringify (tasks (clearAllBtn_click three_tasks)))
   \<and> length (tasks three_tasks) - length (tasks (clearAllBtn_click three_tasks)) = 1
   \<and> \<not> list_ex completed (tasks two_tasks)
   \<and> clearAllBtn_click two_tasks = two_tasks"
proof -
  have h: "list_ex completed (tasks three_tasks)"
    by (simp add: three_tasks_def stored_def mk_def)
  have n: "\<not> list_ex completed (tasks two_tasks)"
    by (simp add: two_tasks_def stored_def mk_def)
  have l: "tasks (clearAllBtn_click three_tasks)
             = [mk ''a'' ''A'' [] False 0, mk ''c'' ''C'' [] False 1]"
    by (simp add: run_simps)
  have c: "length (filter completed (tasks three_tasks)) = 1"
    by (simp add: three_tasks_def stored_def mk_def)
  have s: "localStorage (clearAllBtn_click three_tasks)
             = Some (JSON_stringify (tasks (clearAllBtn_click three_tasks)))"
    using clearCompleted_effect [of three_tasks] h by blast
  have k: "length (tasks three_tasks) - length (tasks (clearAllBtn_click three_tasks))
             = length (filter completed (tasks three_tasks))"
    using clearCompleted_effect [of three_tasks] h by blast
  have z: "clearAllBtn_click two_tasks = two_tasks"
    using clearCompleted_effect [of two_tasks] n by blast
  show ?thesis
    using h n s z k c by (simp add: l mk_def)
qed

text \<open>
  C7 as stated fails where no task is completed. A collection loaded from a stored
  record with order 5 and no \<^verbatim>\<open>completed\<close> field: clearCompleted neither reindexes it
  (the order stays 5) nor persists it (the item is not the serialized collection).
\<close>

theorem clearCompleted_nothing_completed_counterexample:
  "\<not> list_ex completed (tasks (started sparse_blob))
  \<and> map order (tasks (clearAllBtn_click (started sparse_blob))) = [5]
  \<and> localStorage (clearAllBtn_click (started sparse_blob))
      \<noteq> Some (JSON_stringify (tasks (clearAllBtn_click (started sparse_blob))))"
  by (simp add: run_simps started_def sparse_blob_def loadTasks_def loadTasks_try_def
        normalize_def trim_def is_space_def env0_def)

section \<open>Deleting an id that is not there\<close>

text \<open>
  C10. deleteTask with an id that no task has keeps every task, still sorts the
  collection by order (a stable sort: tasks of equal order stay as they were), gives
  it the orders \<open>0, ..., N - 1\<close> and persists. The stored orders can change by it:
  after a drag in a view that shows only task \<open>b\<close> the two orders are 0 and 0, and
  deleting the unknown id \<^verbatim>\<open>zz\<close> makes them 0 and 1. The sequence of the collection
  can change too: after a drag that puts \<open>b\<close> before \<open>a\<close> the collection is still
  \<open>a\<close>, \<open>b\<close> with the orders 1 and 0, and deleting \<^verbatim>\<open>zz\<close> makes it \<open>b\<close>, \<open>a\<close>.
\<close>

theorem delete_unknown_id_reindexes:
  assumes "i \<notin> task_id ` set (tasks s)"
  shows "map forget_order (tasks (deleteTask i s)) = map forget_order (js_sort byOrder (tasks s))
     \<and> map forget_order (tasks (deleteTask i s)) = map forget_order (sort_key order (tasks s))
     \<and> reindexed (tasks s) (tasks (deleteTask i s))
     \<and> mset (map forget_order (tasks (deleteTask i s))) = mset (map forget_order (tasks s))
     \<and> map order (tasks (deleteTask i s)) = map int [0 ..< length (tasks s)]
     \<and> localStorage (deleteTask i s) = Some (JSON_stringify (tasks (deleteTask i s)))
     \<and> map order (tasks (dragend [''b''] two_tasks)) = [0, 0]
     \<and> map order (tasks (deleteTask (JStr ''zz'') (dragend [''b''] two_tasks))) = [0, 1]
     \<and> tasks (dragend [''b'', ''a''] two_tasks)
         = [mk ''a'' ''A'' [] False 1, mk ''b'' ''B'' [] False 0]
     \<and> tasks (deleteTask (JStr ''zz'') (dragend [''b'', ''a''] two_tasks))
         = [mk ''b'' ''B'' [] False 0, mk ''a'' ''A'' [] False 1]"
proof -
  have t: "tasks (deleteTask i s) = reindexOrder (tasks s)"
    using assms by (simp add: tasks_deleteTask filter_absent)
  have e1: "map order (tasks (dragend [''b''] two_tasks)) = [0, 0]"
    by (simp add: run_simps)
  have e2: "map order (tasks (deleteTask (JStr ''zz'') (dragend [''b''] two_tasks))) = [0, 1]"
    by (simp add: run_simps)
  have e3: "tasks (dragend [''b'', ''a''] two_tasks)
         = [mk ''a'' ''A'' [] False 1, mk ''b'' ''B'' [] False 0]"
    by (simp add: run_simps)
  have e4: "tasks (deleteTask (JStr ''zz'') (dragend [''b'', ''a''] two_tasks))
         = [mk ''b'' ''B'' [] False 0, mk ''a'' ''A'' [] False 1]"
    by (simp add: run_simps)
  have a: "map forget_order (tasks (deleteTask i s)) = map forget_order (js_sort byOrder (tasks s))"
    by (simp only: t map_forget_reindexOrder)
  have a': "map forget_order (tasks (deleteTask i s)) = map forget_order (sort_key order (tasks s))"
    by (simp only: t map_forget_reindexOrder js_sort_byOrder)
  have r: "reindexed (tasks s) (tasks (deleteTask i s))"
    by (simp only: t reindexOrder_reindexed)
  have b: "mset (map forget_order (tasks (deleteTask i s))) = mset (map forget_order (tasks s))"
    by (simp only: t mset_forget_reindexOrder)
  have c: "map order (tasks (deleteTask i s)) = map int [0 ..< length (tasks s)]"
    by (simp only: t map_order_reindexOrder)
  from a a' r b c localStorage_deleteTask [of i s] e1 e2 e3 e4 show ?thesis by blast
qed

theorem delete_unknown_id_reindexes_witness:
  "JStr ''zz'' \<notin> task_id ` set (tasks (started sparse_blob))
   \<and> map order (tasks (started sparse_blob)) = [5]
   \<and> map order (tasks (deleteTask (JStr ''zz'') (started sparse_blob))) = [0]
   \<and> localStorage (deleteTask (JStr ''zz'') (started sparse_blob))
       = Some (JSON_stringify (tasks (deleteTask (JStr ''zz'') (started sparse_blob))))
   \<and> JStr ''zz'' \<notin> task_id ` set (tasks (dragend [''b'', ''a''] two_tasks))
   \<and> map task_id (tasks (dragend [''b'', ''a''] two_tasks)) = [JStr ''a'', JStr ''b'']
   \<and> map task_id (tasks (deleteTask (JStr ''zz'') (dragend [''b'', ''a''] two_tasks)))
       = [JStr ''b'', JStr ''a'']
   \<and> reindexed (tasks (dragend [''b'', ''a''] two_tasks))
        (tasks (deleteTask (JStr ''zz'') (dragend [''b'', ''a''] two_tasks)))"
proof -
  have l: "tasks (started sparse_blob)
     = [\<lparr> task_id = JStr ''a'', title = ''A'', due = JStr [], completed = False,
          createdAt = JStr ''2024-01-05T00:00:00.000Z'', order = 5 \<rparr>]"
    by (simp add: started_def sparse_blob_def loadTasks_def loadTasks_try_def normalize_def
          trim_def is_space_def env0_def)
  have h: "JStr ''zz'' \<notin> task_id ` set (tasks (started sparse_blob))"
    by (simp add: l)
  have d: "tasks (dragend [''b'', ''a''] two_tasks)
         = [mk ''a'' ''A'' [] False 1, mk ''b'' ''B'' [] False 0]"
    by (simp add: run_simps)
  have h2: "JStr ''zz'' \<notin> task_id ` set (tasks (dragend [''b'', ''a''] two_tasks))"
    by (simp add: d mk_def)
  have r: "reindexed (tasks (dragend [''b'', ''a''] two_tasks))
        (tasks (deleteTask (JStr ''zz'') (dragend [''b'', ''a''] two_tasks)))"
    using delete_unknown_id_reindexes [OF h2] by blast
  have x: "map task_id (tasks (deleteTask (JStr ''zz'') (dragend [''b'', ''a''] two_tasks)))
       = [JStr ''b'', JStr ''a'']"
    using delete_unknown_id_reindexes [OF h2] by (simp add: mk_def)
  have y: "map task_id (tasks (dragend [''b'', ''a''] two_tasks)) = [JStr ''a'', JStr ''b'']"
    by (simp add: d mk_def)
  have z: "map order (tasks (deleteTask (JStr ''zz'') (started sparse_blob))) = [0]
     \<and> localStorage (deleteTask (JStr ''zz'') (started sparse_blob))
       = Some (JSON_stringify (tasks (deleteTask (JStr ''zz'') (started sparse_blob))))"
    using delete_unknown_id_reindexes [OF h] by (simp add: l)
  from h h2 r x y z l show ?thesis by simp
qed

section \<open>Updating a task\<close>

lemma findIndex_None: "findIndex P xs = None \<longleftrightarrow> (\<forall>x \<in> set xs. \<not> P x)"
  by (induction xs) auto

lemma findIndex_Some:
  "findIndex P xs = Some k \<Longrightarrow> k < length xs \<and> P (xs ! k) \<and> (\<forall>j < k. \<not> P (xs ! j))"
proof (induction xs arbitrary: k)
  case Nil
  then show ?case by simp
next
  case (Cons x xs)
  show ?case
  proof (cases "P x")
    case True
    with Cons.prems show ?thesis by simp
  next
    case False
    with Cons.prems obtain k' where k: "findIndex P xs = Some k'" "k = Suc k'" by auto
    from Cons.IH [OF k(1)] False k(2) show ?thesis
      by (auto simp: nth_Cons split: nat.splits)
  qed
qed

lemma updateTask_absent:
  "i \<notin> task_id ` set (tasks s) \<Longrightarrow> updateTask i p s = s"
proof -
  assume "i \<notin> task_id ` set (tasks s)"
  then have "findIndex (\<lambda>t. task_id t = i) (tasks s) = None"
    by (auto simp: findIndex_None)
  then show ?thesis by (simp add: updateTask_def)
qed

lemma updateTask_present:
  assumes "i \<in> task_id ` set (tasks s)"
  shows "\<exists>idx. findIndex (\<lambda>t. task_id t = i) (tasks s) = Some idx
           \<and> updateTask i p s =
               s\<lparr> tasks := (tasks s)[idx := spread (tasks s ! idx) p],
                  localStorage :=
                    Some (JSON_stringify ((tasks s)[idx := spread (tasks s ! idx) p])) \<rparr>"
proof -
  from assms have "findIndex (\<lambda>t. task_id t = i) (tasks s) \<noteq> None"
    by (auto simp: findIndex_None)
  then obtain idx where "findIndex (\<lambda>t. task_id t = i) (tasks s) = Some idx" by auto
  then show ?thesis by (simp add: updateTask_def Let_def saveTasks_def)
qed

lemma spread_frame:
  "order (spread t p) = order t" "createdAt (spread t p) = createdAt t"
  "task_id (spread t p) = task_id t"
  by (simp_all add: spread_def)

text \<open>
  C8 (amended). updateTask with an id that no task has changes nothing, and it gives
  no signal of that: it returns as it does after an update. With an id that a task
  has, and any patch of title, due and completed, the task it updates (the first with
  that id) keeps its order and its createdAt, and every other task of the collection
  is as before.
\<close>

theorem updateTask_frame:
  "(i \<notin> task_id ` set (tasks s) \<longrightarrow> updateTask i p s = s)
   \<and> (i \<in> task_id ` set (tasks s) \<longrightarrow>
        (\<exists>idx < length (tasks s).
            task_id (tasks s ! idx) = i
          \<and> tasks (updateTask i p s) = (tasks s)[idx := spread (tasks s ! idx) p]
          \<and> order (tasks (updateTask i p s) ! idx) = order (tasks s ! idx)
          \<and> createdAt (tasks (updateTask i p s) ! idx) = createdAt (tasks s ! idx)
          \<and> length (tasks (updateTask i p s)) = length (tasks s)
          \<and> (\<forall>k < length (tasks s). k \<noteq> idx \<longrightarrow>
                tasks (updateTask i p s) ! k = tasks s ! k)))"
proof (intro conjI impI)
  assume "i \<notin> task_id ` set (tasks s)"
  then show "updateTask i p s = s" by (rule updateTask_absent)
next
  assume "i \<in> task_id ` set (tasks s)"
  from updateTask_present [OF this, of p] obtain idx where
    f: "findIndex (\<lambda>t. task_id t = i) (tasks s) = Some idx" and
    u: "updateTask i p s =
          s\<lparr> tasks := (tasks s)[idx := spread (tasks s ! idx) p],
             localStorage :=
               Some (JSON_stringify ((tasks s)[idx := spread (tasks s ! idx) p])) \<rparr>"
    by blast
  from findIndex_Some [OF f] have b: "idx < length (tasks s)" "task_id (tasks s ! idx) = i"
    by auto
  show "\<exists>idx < length (tasks s).
            task_id (tasks s ! idx) = i
          \<and> tasks (updateTask i p s) = (tasks s)[idx := spread (tasks s ! idx) p]
          \<and> order (tasks (updateTask i p s) ! idx) = order (tasks s ! idx)
          \<and> createdAt (tasks (updateTask i p s) ! idx) = createdAt (tasks s ! idx)
          \<and> length (tasks (updateTask i p s)) = length (tasks s)
          \<and> (\<forall>k < length (tasks s). k \<noteq> idx \<longrightarrow>
                tasks (updateTask i p s) ! k = tasks s ! k)"
    using b by (intro exI [of _ idx]) (simp add: u spread_frame)
qed

theorem updateTask_frame_witness:
  "JStr ''zz'' \<notin> task_id ` set (tasks three_tasks)
   \<and> updateTask (JStr ''zz'') done_patch three_tasks = three_tasks
   \<and> JStr ''c'' \<in> task_id ` set (tasks three_tasks)
   \<and> tasks (updateTask (JStr ''c'') done_patch three_tasks)
       = [mk ''a'' ''A'' [] False 0, mk ''b'' ''B'' [] True 1, mk ''c'' ''C'' [] True 2]"
proof -
  have a: "JStr ''zz'' \<notin> task_id ` set (tasks three_tasks)"
    by (simp add: three_tasks_def stored_def mk_def)
  have c: "JStr ''c'' \<in> task_id ` set (tasks three_tasks)"
    by (simp add: three_tasks_def stored_def mk_def)
  have n: "updateTask (JStr ''zz'') done_patch three_tasks = three_tasks"
    using updateTask_frame [of "JStr ''zz''" three_tasks done_patch] a by blast
  have t: "tasks (updateTask (JStr ''c'') done_patch three_tasks)
       = [mk ''a'' ''A'' [] False 0, mk ''b'' ''B'' [] True 1, mk ''c'' ''C'' [] True 2]"
    by (simp add: updateTask_def three_tasks_def stored_def mk_def done_patch_def spread_def
          saveTasks_def Let_def)
  from a c n t show ?thesis by blast
qed

text \<open>
  C8 as stated fails in its signal: the call with the unknown id \<^verbatim>\<open>zz\<close> ends as the
  call with the id of task \<open>b\<close> does, whose patch repeats what the task has. Both
  return \<^verbatim>\<open>undefined\<close> and leave the same tasks and the same stored item: nothing
  tells the caller that the id was not found.
\<close>

theorem updateTask_silent_counterexample:
  "JStr ''zz'' \<notin> task_id ` set (tasks three_tasks)
   \<and> JStr ''b'' \<in> task_id ` set (tasks three_tasks)
   \<and> updateTask (JStr ''zz'') done_patch three_tasks = three_tasks
   \<and> updateTask (JStr ''b'') done_patch three_tasks = three_tasks
   \<and> updateTask (JStr ''zz'') done_patch three_tasks
       = updateTask (JStr ''b'') done_patch three_tasks"
  by (simp add: updateTask_def three_tasks_def stored_def mk_def done_patch_def spread_def
        saveTasks_def Let_def JSON_stringify_def task_json_def)

section \<open>Titles that trim to nothing\<close>

text \<open>
  C3. Create and update reach the collection through the click handlers of the Add
  button and of the editor's Save button. Called with a title that trims to empty,
  both give ValidationError and leave the collection wholly unchanged: no task is
  added, no field of a task is changed, and the stored item is not written.
\<close>

theorem blank_title_refused:
  assumes "trim titleInput_value = []"
  shows "addBtn_click e titleInput_value dateInput_value s = (Some ValidationError, s)
       \<and> save_click i titleInput_value dateInput_value s = (Some ValidationError, s)"
  using assms by (simp add: addBtn_click_def save_click_def)

theorem blank_title_refused_witness:
  "trim ''  '' = []
   \<and> addBtn_click (env0 0) ''  '' ''2024-01-05'' two_tasks = (Some ValidationError, two_tasks)
   \<and> save_click (JStr ''a'') ''  '' ''2024-01-05'' two_tasks = (Some ValidationError, two_tasks)"
proof -
  have h: "trim ''  '' = []" by (simp add: trim_def is_space_def)
  from h blank_title_refused [OF h] show ?thesis by blast
qed

section \<open>Creating a task\<close>

lemma double_of_nat_small: "n \<le> 9007199254740992 \<Longrightarrow> double_of_nat n = n"
proof (cases "n < 9007199254740992")
  case True
  then have "double_shift n = 0" by (simp add: double_shift.simps)
  then show ?thesis by (simp add: double_of_nat_def)
next
  case False
  assume "n \<le> 9007199254740992"
  with False have n: "n = 9007199254740992" by simp
  have "double_shift 9007199254740992 = 1"
    by (simp add: double_shift.simps)
  then show ?thesis unfolding n by (simp add: double_of_nat_def)
qed

lemma double_of_int_small: "\<bar>i\<bar> \<le> 9007199254740992 \<Longrightarrow> double_of_int i = i"
  by (simp add: double_of_int_def double_of_nat_small)

lemma js_plus_safe: "\<bar>m\<bar> < 9007199254740992 \<Longrightarrow> js_plus m 1 = m + 1"
  by (simp add: js_plus_def double_of_int_small)

lemma js_plus_2_53: "js_plus 9007199254740992 1 = 9007199254740992"
  by (simp add: js_plus_def double_of_int_def double_of_nat_def double_shift.simps)

lemma fold_max_Max: "fold max xs (x::int) = Max (set (x # xs))"
  using Max.set_eq_fold [of x xs] by simp

lemma next_order_Max:
  "next_order ts = (if ts = [] then 0 else js_plus (Max (order ` set ts)) 1)"
proof (cases ts)
  case Nil
  then show ?thesis by (simp add: next_order_def)
next
  case (Cons t ts')
  have "fold max (map order ts') (order t) = Max (set (order t # map order ts'))"
    by (rule fold_max_Max)
  with Cons show ?thesis by (simp add: next_order_def)
qed

lemma tasks_addTask:
  "tasks (addTask e ttl d s) = tasks s @
     [\<lparr> task_id = JStr (uid e), title = ttl, due = JStr d, completed = False,
        createdAt = JStr (iso_now e), order = next_order (tasks s) \<rparr>]"
  by (simp add: addTask_def Let_def saveTasks_def)

lemma localStorage_addTask:
  "localStorage (addTask e ttl d s) = Some (JSON_stringify (tasks (addTask e ttl d s)))"
  by (simp add: addTask_def Let_def saveTasks_def)

lemma state_addTask: "state (addTask e ttl d s) = state s"
  by (simp add: addTask_def Let_def saveTasks_def)

lemma uid_env0: "uid (env0 0) = ''4fzyo82mvyrlqzvdhc0''"
  by (simp add: uid_def env0_def toStringRadix.simps digit_char_def)

lemma iso_now_env0: "iso_now (env0 i) = ''2024-01-05T00:00:00.000Z''"
  by (simp add: env0_def)

text \<open>
  C5 (amended). Every create appends one new task: its id is the text uid gives
  (the random digits after \<^verbatim>\<open>0.\<close>, then the clock in base 36), its createdAt the
  current time, its order 0 for an empty collection and else what \<^verbatim>\<open>max + 1\<close> is in
  double arithmetic for the largest order \<^verbatim>\<open>max\<close> of the collection: that is
  \<open>max + 1\<close> while \<open>max\<close> is below \<open>2^53\<close> in magnitude, and can be \<open>max\<close> itself from
  there on. The collection is then persisted, the new task being its last element
  (addTask returns no value). The program never compares the new id with the ids it
  has: the ids stay pairwise distinct exactly when uid gives a text that no task of
  the collection has as its id. The add handler creates with the trimmed title
  whenever that is not empty.
\<close>

theorem addTask_effect:
  "tasks (addTask e ttl d s) = tasks s @
     [\<lparr> task_id = JStr (drop 2 (random36 e) @ toStringRadix 36 (date_now e)),
        title = ttl, due = JStr d, completed = False, createdAt = JStr (iso_now e),
        order = (if tasks s = [] then 0 else js_plus (Max (order ` set (tasks s))) 1) \<rparr>]
   \<and> (tasks s = [] \<longrightarrow> order (last (tasks (addTask e ttl d s))) = 0)
   \<and> (tasks s \<noteq> [] \<and> \<bar>Max (order ` set (tasks s))\<bar> < 9007199254740992
        \<longrightarrow> order (last (tasks (addTask e ttl d s))) = Max (order ` set (tasks s)) + 1)
   \<and> localStorage (addTask e ttl d s) = Some (JSON_stringify (tasks (addTask e ttl d s)))
   \<and> state (addTask e ttl d s) = state s
   \<and> (distinct (map task_id (tasks s)) \<and> JStr (uid e) \<notin> task_id ` set (tasks s)
        \<longrightarrow> distinct (map task_id (tasks (addTask e ttl d s))))
   \<and> (JStr (uid e) \<in> task_id ` set (tasks s)
        \<longrightarrow> \<not> distinct (map task_id (tasks (addTask e ttl d s))))
   \<and> (trim titleInput_value \<noteq> []
        \<longrightarrow> addBtn_click e titleInput_value d s
              = (None, addTask e (trim titleInput_value) d s))"
  by (simp add: tasks_addTask localStorage_addTask state_addTask next_order_Max uid_def
        addBtn_click_def js_plus_safe)

theorem addTask_effect_witness:
  "distinct (map task_id (tasks two_tasks))
   \<and> JStr (uid (env0 0)) \<notin> task_id ` set (tasks two_tasks)
   \<and> distinct (map task_id (tasks (addTask (env0 0) ''C'' ''2024-01-05'' two_tasks)))
   \<and> tasks (addTask (env0 0) ''C'' ''2024-01-05'' two_tasks) = tasks two_tasks @
       [\<lparr> task_id = JStr ''4fzyo82mvyrlqzvdhc0'', title = ''C'', due = JStr ''2024-01-05'',
          completed = False, createdAt = JStr ''2024-01-05T00:00:00.000Z'', order = 2 \<rparr>]
   \<and> tasks two_tasks \<noteq> []
   \<and> \<bar>Max (order ` set (tasks two_tasks))\<bar> < 9007199254740992
   \<and> order (last (tasks (addTask (env0 0) ''C'' ''2024-01-05'' two_tasks)))
       = Max (order ` set (tasks two_tasks)) + 1
   \<and> trim '' C '' \<noteq> []
   \<and> addBtn_click (env0 0) '' C '' ''2024-01-05'' two_tasks
       = (None, addTask (env0 0) ''C'' ''2024-01-05'' two_tasks)"
proof -
  have a: "distinct (map task_id (tasks two_tasks))"
    by (simp add: two_tasks_def stored_def mk_def)
  have b: "JStr (uid (env0 0)) \<notin> task_id ` set (tasks two_tasks)"
    by (simp add: uid_env0 two_tasks_def stored_def mk_def)
  have c: "trim '' C '' = ''C''" by (simp add: trim_def is_space_def)
  have m: "tasks two_tasks \<noteq> [] \<and> \<bar>Max (order ` set (tasks two_tasks))\<bar> < 9007199254740992"
    by (simp add: two_tasks_def stored_def mk_def)
  have d: "distinct (map task_id (tasks (addTask (env0 0) ''C'' ''2024-01-05'' two_tasks)))"
    using addTask_effect [of "env0 0" "''C''" "''2024-01-05''" two_tasks] a b by blast
  have o: "order (last (tasks (addTask (env0 0) ''C'' ''2024-01-05'' two_tasks)))
       = Max (order ` set (tasks two_tasks)) + 1"
    using addTask_effect [of "env0 0" "''C''" "''2024-01-05''" two_tasks] m by blast
  have x: "Max (order ` set (tasks two_tasks)) + 1 = 2"
    by (simp add: two_tasks_def stored_def mk_def)
  have t: "tasks (addTask (env0 0) ''C'' ''2024-01-05'' two_tasks) = tasks two_tasks @
       [\<lparr> task_id = JStr ''4fzyo82mvyrlqzvdhc0'', title = ''C'', due = JStr ''2024-01-05'',
          completed = False, createdAt = JStr ''2024-01-05T00:00:00.000Z'', order = 2 \<rparr>]"
    using o x by (simp add: tasks_addTask uid_env0 iso_now_env0)
  have k: "addBtn_click (env0 0) '' C '' ''2024-01-05'' two_tasks
       = (None, addTask (env0 0) (trim '' C '') ''2024-01-05'' two_tasks)"
    using addTask_effect [of "env0 0" _ "''2024-01-05''" two_tasks "'' C ''"] c by simp
  from a b d t k c m o show ?thesis by simp
qed

text \<open>
  C5 as stated fails twice. Nothing makes the id fresh: two creates for which the
  platform hands out the same random number in the same millisecond give two tasks
  with one id. And the order is not always the largest plus 1: after a task stored
  with the order \<open>2^53\<close> is loaded, the next create gets \<open>2^53\<close> again, which is what
  \<^verbatim>\<open>9007199254740992 + 1\<close> is in double arithmetic.
\<close>

theorem addTask_same_readings_counterexample:
  "map task_id (tasks (addTask (env0 0) ''B'' [] (addTask (env0 0) ''A'' [] empty_app)))
     = [JStr ''4fzyo82mvyrlqzvdhc0'', JStr ''4fzyo82mvyrlqzvdhc0'']
   \<and> \<not> distinct (map task_id
         (tasks (addTask (env0 0) ''B'' [] (addTask (env0 0) ''A'' [] empty_app))))
   \<and> map order (tasks (started big_order_blob)) = [9007199254740992]
   \<and> map order (tasks (addTask (env0 0) ''B'' [] (started big_order_blob)))
       = [9007199254740992, 9007199254740992]"
proof -
  have l: "tasks (started big_order_blob)
     = [\<lparr> task_id = JStr ''a'', title = ''A'', due = JStr [], completed = False,
          createdAt = JStr ''2024-01-05T00:00:00.000Z'', order = 9007199254740992 \<rparr>]"
    by (simp add: started_def big_order_blob_def loadTasks_def loadTasks_try_def normalize_def
          trim_def is_space_def env0_def)
  have n: "next_order (tasks (started big_order_blob)) = 9007199254740992"
    by (simp add: l next_order_def js_plus_2_53)
  show ?thesis
    by (simp add: tasks_addTask uid_env0 empty_app_def n) (simp add: l)
qed

section \<open>Reordering by drag\<close>

lemma length_find_set_order [simp]: "length (find_set_order i n ts) = length ts"
  by (induction ts) auto

lemma map_forget_find_set_order:
  "map forget_order (find_set_order i n ts) = map forget_order ts"
  by (induction ts) (auto simp: forget_order_def)

lemma map_task_id_find_set_order [simp]:
  "map task_id (find_set_order i n ts) = map task_id ts"
  by (induction ts) auto

lemma task_id_nth_find_set_order:
  "k < length ts \<Longrightarrow> task_id (find_set_order i n ts ! k) = task_id (ts ! k)"
  using map_task_id_find_set_order [of i n ts]
  by (metis length_find_set_order nth_map)

lemma nth_find_set_order_other:
  "k < length ts \<Longrightarrow> task_id (ts ! k) \<noteq> i \<Longrightarrow> find_set_order i n ts ! k = ts ! k"
proof (induction ts arbitrary: k)
  case Nil
  then show ?case by simp
next
  case (Cons t ts)
  then show ?case by (cases k) auto
qed

lemma nth_find_set_order_first:
  "k < length ts \<Longrightarrow> task_id (ts ! k) = i \<Longrightarrow> i \<notin> set (map task_id (take k ts)) \<Longrightarrow>
   find_set_order i n ts ! k = (ts ! k)\<lparr>order := n\<rparr>"
proof (induction ts arbitrary: k)
  case Nil
  then show ?case by simp
next
  case (Cons t ts)
  then show ?case by (cases k) auto
qed

lemma length_forEach_id [simp]: "length (forEach_id index xs ts) = length ts"
  by (induction xs arbitrary: index ts) auto

lemma map_forget_forEach_id:
  "map forget_order (forEach_id index xs ts) = map forget_order ts"
  by (induction xs arbitrary: index ts) (auto simp: map_forget_find_set_order)

lemma nth_forEach_id_unnamed:
  "k < length ts \<Longrightarrow> task_id (ts ! k) \<notin> JStr ` set xs \<Longrightarrow> forEach_id index xs ts ! k = ts ! k"
proof (induction xs arbitrary: index ts)
  case Nil
  then show ?case by simp
next
  case (Cons x xs)
  let ?ts = "find_set_order (JStr x) (int index) ts"
  have a: "?ts ! k = ts ! k"
    using Cons.prems by (intro nth_find_set_order_other) auto
  have "forEach_id (Suc index) xs ?ts ! k = ?ts ! k"
    using Cons.prems a by (intro Cons.IH) auto
  with a show ?case by simp
qed

lemma nth_forEach_id_named:
  "j < length xs \<Longrightarrow> k < length ts \<Longrightarrow> task_id (ts ! k) = JStr (xs ! j) \<Longrightarrow>
   xs ! j \<notin> set (drop (Suc j) xs) \<Longrightarrow> JStr (xs ! j) \<notin> set (map task_id (take k ts)) \<Longrightarrow>
   forEach_id index xs ts ! k = (ts ! k)\<lparr>order := int (index + j)\<rparr>"
proof (induction xs arbitrary: index ts j)
  case Nil
  then show ?case by simp
next
  case (Cons x xs)
  let ?ts = "find_set_order (JStr x) (int index) ts"
  show ?case
  proof (cases j)
    case 0
    have a: "?ts ! k = (ts ! k)\<lparr>order := int index\<rparr>"
      using Cons.prems 0 by (intro nth_find_set_order_first) auto
    have "forEach_id (Suc index) xs ?ts ! k = ?ts ! k"
      using Cons.prems 0 a by (intro nth_forEach_id_unnamed) auto
    with a 0 show ?thesis by simp
  next
    case (Suc j')
    have ids: "map task_id (take k ?ts) = map task_id (take k ts)"
      by (simp add: take_map [symmetric])
    have o: "order (forEach_id (Suc index) xs ?ts ! k) = int (Suc index + j')"
      and r: "forEach_id (Suc index) xs ?ts ! k = (?ts ! k)\<lparr>order := int (Suc index + j')\<rparr>"
      using Cons.prems Suc Cons.IH [of j' ?ts "Suc index"] ids
      by (auto simp: task_id_nth_find_set_order)
    have "(?ts ! k)\<lparr>order := int (Suc index + j')\<rparr> = (ts ! k)\<lparr>order := int (Suc index + j')\<rparr>"
    proof (cases "task_id (ts ! k) = JStr x")
      case True
      then have "JStr x \<notin> set (map task_id (take k ts))" using Cons.prems Suc by auto
      then have "?ts ! k = (ts ! k)\<lparr>order := int index\<rparr>"
        using Cons.prems True by (intro nth_find_set_order_first) auto
      then show ?thesis by simp
    next
      case False
      then show ?thesis using Cons.prems by (simp add: nth_find_set_order_other)
    qed
    with r Suc show ?thesis by simp
  qed
qed

lemma tasks_dragend: "tasks (dragend ids s) = forEach_id 0 ids (tasks s)"
  by (simp add: dragend_def Let_def saveTasks_def)

lemma localStorage_dragend:
  "localStorage (dragend ids s) = Some (JSON_stringify (tasks (dragend ids s)))"
  by (simp add: dragend_def Let_def saveTasks_def)

lemma lastIndexOf_None: "lastIndexOf xs x = None \<longleftrightarrow> x \<notin> set xs"
  by (induction xs) (auto split: option.splits)

lemma lastIndexOf_Some:
  "lastIndexOf xs x = Some j \<Longrightarrow> j < length xs \<and> xs ! j = x \<and> x \<notin> set (drop (Suc j) xs)"
proof (induction xs arbitrary: j)
  case Nil
  then show ?case by simp
next
  case (Cons y ys)
  show ?case
  proof (cases "lastIndexOf ys x")
    case None
    with Cons.prems have "y = x" "j = 0" by (auto split: if_splits)
    moreover from None have "x \<notin> set ys" by (simp add: lastIndexOf_None)
    ultimately show ?thesis by simp
  next
    case (Some j')
    with Cons.prems have "j = Suc j'" by simp
    with Cons.IH [OF Some] show ?thesis by simp
  qed
qed

lemma nth_find_set_order_shadowed:
  "k < length ts \<Longrightarrow> task_id (ts ! k) \<in> set (map task_id (take k ts)) \<Longrightarrow>
   find_set_order i n ts ! k = ts ! k"
proof (induction ts arbitrary: k)
  case Nil
  then show ?case by simp
next
  case (Cons t ts)
  show ?case
  proof (cases k)
    case 0
    with Cons.prems show ?thesis by simp
  next
    case (Suc k')
    show ?thesis
    proof (cases "task_id t = i")
      case True
      with Suc show ?thesis by simp
    next
      case False
      show ?thesis
      proof (cases "task_id (ts ! k') = task_id t")
        case True
        with False have "task_id (ts ! k') \<noteq> i" by simp
        with Cons.prems Suc have "find_set_order i n ts ! k' = ts ! k'"
          by (intro nth_find_set_order_other) auto
        with False Suc show ?thesis by simp
      next
        case ne: False
        with Cons.prems Suc have "task_id (ts ! k') \<in> set (map task_id (take k' ts))" by auto
        with Cons.prems Suc have "find_set_order i n ts ! k' = ts ! k'"
          by (intro Cons.IH) auto
        with False Suc show ?thesis by simp
      qed
    qed
  qed
qed

lemma nth_forEach_id_shadowed:
  "k < length ts \<Longrightarrow> task_id (ts ! k) \<in> set (map task_id (take k ts)) \<Longrightarrow>
   forEach_id index xs ts ! k = ts ! k"
proof (induction xs arbitrary: index ts)
  case Nil
  then show ?case by simp
next
  case (Cons x xs)
  let ?ts = "find_set_order (JStr x) (int index) ts"
  have a: "?ts ! k = ts ! k"
    using Cons.prems by (rule nth_find_set_order_shadowed)
  have ids: "map task_id (take k ?ts) = map task_id (take k ts)"
    by (simp add: take_map [symmetric])
  have "forEach_id (Suc index) xs ?ts ! k = ?ts ! k"
    using Cons.prems a ids by (intro Cons.IH) auto
  with a show ?case by simp
qed

lemma distinct_nth_not_later:
  "distinct xs \<Longrightarrow> j < length xs \<Longrightarrow> xs ! j \<notin> set (drop (Suc j) xs)"
  by (metis Cons_nth_drop_Suc append_take_drop_id distinct.simps(2) distinct_append)

lemma distinct_nth_not_earlier:
  "distinct xs \<Longrightarrow> k < length xs \<Longrightarrow> xs ! k \<notin> set (take k xs)"
  by (metis Cons_nth_drop_Suc append_take_drop_id disjoint_iff distinct_append list.set_intros(1))

lemma nth_dragend:
  assumes "k < length (tasks s)"
  shows "tasks (dragend ids s) ! k =
      (case task_id (tasks s ! k) of
         JStr x \<Rightarrow>
           (case lastIndexOf ids x of
              None \<Rightarrow> tasks s ! k
            | Some j \<Rightarrow>
                if JStr x \<in> set (map task_id (take k (tasks s))) then tasks s ! k
                else (tasks s ! k)\<lparr>order := int j\<rparr>)
       | _ \<Rightarrow> tasks s ! k)"
proof (cases "\<exists>x. task_id (tasks s ! k) = JStr x")
  case False
  then have "task_id (tasks s ! k) \<notin> JStr ` set ids" by auto
  then have "tasks (dragend ids s) ! k = tasks s ! k"
    using assms by (simp add: tasks_dragend nth_forEach_id_unnamed)
  with False show ?thesis by (cases "task_id (tasks s ! k)") auto
next
  case True
  then obtain x where x: "task_id (tasks s ! k) = JStr x" by blast
  show ?thesis
  proof (cases "lastIndexOf ids x")
    case None
    then have "task_id (tasks s ! k) \<notin> JStr ` set ids"
      using x by (auto simp: lastIndexOf_None)
    then have "tasks (dragend ids s) ! k = tasks s ! k"
      using assms by (simp add: tasks_dragend nth_forEach_id_unnamed)
    with x None show ?thesis by simp
  next
    case (Some j)
    note j = lastIndexOf_Some [OF Some]
    show ?thesis
    proof (cases "JStr x \<in> set (map task_id (take k (tasks s)))")
      case True
      then have "tasks (dragend ids s) ! k = tasks s ! k"
        using assms x by (simp add: tasks_dragend nth_forEach_id_shadowed)
      with x Some True show ?thesis by simp
    next
      case False
      have "forEach_id 0 ids (tasks s) ! k = (tasks s ! k)\<lparr>order := int (0 + j)\<rparr>"
        using assms x j False by (intro nth_forEach_id_named) auto
      with x Some False show ?thesis by (simp add: tasks_dragend)
    qed
  qed
qed

text \<open>
  C6 (amended). For every sequence of ids that the drag hands over, and every task of
  the collection: if the id of the task stands in the sequence and no earlier task
  of the collection has the same id, the order of the task becomes the index of the
  last place of its id in the sequence; every other task is left as it was, be it
  that its id is not in the sequence, or that an earlier task has the same id
  (\<^verbatim>\<open>find\<close> gives the first). An id that no task has changes nothing and is no
  error, nothing but orders changes, and the collection is persisted afterwards.
  With ids that are pairwise different, in the collection and in the sequence, this
  is: the task with the id at index \<open>j\<close> gets the order \<open>j\<close>.
\<close>

theorem dragend_orders:
  "(\<forall>k < length (tasks s). tasks (dragend ids s) ! k =
      (case task_id (tasks s ! k) of
         JStr x \<Rightarrow>
           (case lastIndexOf ids x of
              None \<Rightarrow> tasks s ! k
            | Some j \<Rightarrow>
                if JStr x \<in> set (map task_id (take k (tasks s))) then tasks s ! k
                else (tasks s ! k)\<lparr>order := int j\<rparr>)
       | _ \<Rightarrow> tasks s ! k))
   \<and> length (tasks (dragend ids s)) = length (tasks s)
   \<and> (distinct (map task_id (tasks s)) \<and> distinct ids \<longrightarrow>
        (\<forall>j k. j < length ids \<and> k < length (tasks s) \<and> task_id (tasks s ! k) = JStr (ids ! j)
           \<longrightarrow> tasks (dragend ids s) ! k = (tasks s ! k)\<lparr>order := int j\<rparr>))
   \<and> (\<forall>k. k < length (tasks s) \<and> task_id (tasks s ! k) \<notin> JStr ` set ids
        \<longrightarrow> tasks (dragend ids s) ! k = tasks s ! k)
   \<and> map forget_order (tasks (dragend ids s)) = map forget_order (tasks s)
   \<and> localStorage (dragend ids s) = Some (JSON_stringify (tasks (dragend ids s)))"
proof (intro conjI allI impI)
  fix k assume "k < length (tasks s)"
  then show "tasks (dragend ids s) ! k =
      (case task_id (tasks s ! k) of
         JStr x \<Rightarrow>
           (case lastIndexOf ids x of
              None \<Rightarrow> tasks s ! k
            | Some j \<Rightarrow>
                if JStr x \<in> set (map task_id (take k (tasks s))) then tasks s ! k
                else (tasks s ! k)\<lparr>order := int j\<rparr>)
       | _ \<Rightarrow> tasks s ! k)"
    by (rule nth_dragend)
next
  show "length (tasks (dragend ids s)) = length (tasks s)" by (simp add: tasks_dragend)
next
  fix j k
  assume d: "distinct (map task_id (tasks s)) \<and> distinct ids"
    and h: "j < length ids \<and> k < length (tasks s) \<and> task_id (tasks s ! k) = JStr (ids ! j)"
  have 1: "ids ! j \<notin> set (drop (Suc j) ids)"
    using d h by (simp add: distinct_nth_not_later)
  have "map task_id (tasks s) ! k \<notin> set (take k (map task_id (tasks s)))"
    using d h by (intro distinct_nth_not_earlier) auto
  then have 2: "JStr (ids ! j) \<notin> set (map task_id (take k (tasks s)))"
    using h by (simp add: take_map)
  have "forEach_id 0 ids (tasks s) ! k = (tasks s ! k)\<lparr>order := int (0 + j)\<rparr>"
    using h 1 2 by (intro nth_forEach_id_named) auto
  then show "tasks (dragend ids s) ! k = (tasks s ! k)\<lparr>order := int j\<rparr>"
    by (simp add: tasks_dragend)
next
  fix k
  assume "k < length (tasks s) \<and> task_id (tasks s ! k) \<notin> JStr ` set ids"
  then show "tasks (dragend ids s) ! k = tasks s ! k"
    by (simp add: tasks_dragend nth_forEach_id_unnamed)
next
  show "map forget_order (tasks (dragend ids s)) = map forget_order (tasks s)"
    by (simp add: tasks_dragend map_forget_forEach_id)
next
  show "localStorage (dragend ids s) = Some (JSON_stringify (tasks (dragend ids s)))"
    by (rule localStorage_dragend)
qed

theorem dragend_orders_witness:
  "distinct (map task_id (tasks three_tasks)) \<and> distinct [''c'', ''zz'', ''a'']
   \<and> task_id (tasks three_tasks ! 0) = JStr ([''c'', ''zz'', ''a''] ! 2)
   \<and> tasks (dragend [''c'', ''zz'', ''a''] three_tasks) ! 0 = (tasks three_tasks ! 0)\<lparr>order := 2\<rparr>
   \<and> task_id (tasks three_tasks ! 1) \<notin> JStr ` set [''c'', ''zz'', ''a'']
   \<and> tasks (dragend [''c'', ''zz'', ''a''] three_tasks) ! 1 = tasks three_tasks ! 1
   \<and> map order (tasks (dragend [''c'', ''zz'', ''a''] three_tasks)) = [2, 1, 0]
   \<and> map task_id (tasks (dragend [''c'', ''zz'', ''a''] three_tasks))
       = [JStr ''a'', JStr ''b'', JStr ''c'']"
proof -
  let ?ids = "[''c'', ''zz'', ''a'']"
  have t: "tasks three_tasks
            = [mk ''a'' ''A'' [] False 0, mk ''b'' ''B'' [] True 1, mk ''c'' ''C'' [] False 2]"
    by (simp add: three_tasks_def stored_def)
  have dd: "distinct (map task_id (tasks three_tasks)) \<and> distinct ?ids"
    by (simp add: t mk_def)
  have h0: "(2::nat) < length ?ids \<and> (0::nat) < length (tasks three_tasks)
          \<and> task_id (tasks three_tasks ! 0) = JStr (?ids ! 2)"
    by (simp add: t mk_def)
  have h1: "(1::nat) < length (tasks three_tasks)
          \<and> task_id (tasks three_tasks ! 1) \<notin> JStr ` set ?ids"
    by (simp add: t mk_def)
  have a: "tasks (dragend ?ids three_tasks) ! 0 = (tasks three_tasks ! 0)\<lparr>order := int 2\<rparr>"
    using dragend_orders [of three_tasks ?ids] dd h0 by blast
  have b: "tasks (dragend ?ids three_tasks) ! 1 = tasks three_tasks ! 1"
    using dragend_orders [of three_tasks ?ids] h1 by blast
  have c: "tasks (dragend ?ids three_tasks)
            = [mk ''a'' ''A'' [] False 2, mk ''b'' ''B'' [] True 1, mk ''c'' ''C'' [] False 0]"
    by (simp add: tasks_dragend t mk_def)
  have d: "map order (tasks (dragend ?ids three_tasks)) = [2, 1, 0]"
    and e: "map task_id (tasks (dragend ?ids three_tasks)) = [JStr ''a'', JStr ''b'', JStr ''c'']"
    by (simp_all add: c mk_def)
  from a b d e dd h0 h1 show ?thesis by simp
qed

text \<open>
  C6 as stated fails for tasks that share an id. The list shows both, so the
  sequence is that id twice; both ids match a task, yet \<^verbatim>\<open>find\<close> gives the first
  task both times: it ends with order 1, no task gets order 0, and the second task
  keeps its order 7.
\<close>

theorem dragend_shared_id_counterexample:
  "map task_id (tasks twin_tasks) = [JStr ''a'', JStr ''a'']
   \<and> map order (tasks twin_tasks) = [5, 7]
   \<and> map order (tasks (dragend [''a'', ''a''] twin_tasks)) = [1, 7]"
  by (simp add: tasks_dragend twin_tasks_def stored_def mk_def)

section \<open>Loading\<close>

lemma trim_trimmed:
  "trim s = [] \<or> (\<not> is_space (hd (trim s)) \<and> \<not> is_space (last (trim s)))"
proof (cases "trim s = []")
  case True
  then show ?thesis by simp
next
  case False
  define u where "u = dropWhile is_space s"
  define w where "w = dropWhile is_space (rev u)"
  have t: "trim s = rev w" by (simp add: trim_def u_def w_def)
  have w: "w \<noteq> []" using False t by simp
  then have hw: "\<not> is_space (hd w)" unfolding w_def by (rule hd_dropWhile)
  have "rev (rev u) = rev (takeWhile is_space (rev u) @ w)"
    unfolding w_def by (simp only: takeWhile_dropWhile_id)
  then have u: "u = rev w @ rev (takeWhile is_space (rev u))"
    by (simp only: rev_rev_ident rev_append)
  have "u \<noteq> []" using w u by auto
  then have "\<not> is_space (hd u)" unfolding u_def by (rule hd_dropWhile)
  moreover have "hd u = hd (rev w)" using u w by (metis hd_append2 rev_is_Nil_conv)
  ultimately have "\<not> is_space (hd (rev w))" by simp
  moreover have "last (rev w) = hd w" using w by (simp add: last_rev)
  ultimately show ?thesis using hw t by simp
qed

lemma trim_id:
  assumes "s = [] \<or> (\<not> is_space (hd s) \<and> \<not> is_space (last s))"
  shows "trim s = s"
proof (cases "s = []")
  case True
  then show ?thesis by (simp add: trim_def)
next
  case False
  with assms have h: "\<not> is_space (hd s)" and l: "\<not> is_space (last s)" by auto
  from False h have a: "dropWhile is_space s = s" by (cases s) auto
  from False l have "\<not> is_space (hd (rev s))" by (simp add: hd_rev)
  with False have "dropWhile is_space (rev s) = rev s" by (cases "rev s") auto
  with a show ?thesis by (simp add: trim_def)
qed

lemma trim_trim: "trim (trim s) = trim s"
  by (rule trim_id) (rule trim_trimmed)

lemma or_else_case:
  "or_else x d = (case x of None \<Rightarrow> d | Some v \<Rightarrow> if truthy v then v else d)"
  by (cases x) auto

lemma truthy_opt_case:
  "truthy_opt x = (case x of None \<Rightarrow> False | Some v \<Rightarrow> truthy v)"
  by (cases x) auto

lemma normalize_readable:
  "readable r \<Longrightarrow> \<exists>t. normalize e i r = Inr t \<and> normalized e i r t"
  by (auto simp: readable_def normalize_def normalized_def trim_trim or_else_case
        truthy_opt_case split: option.splits)

lemma normalize_unreadable: "\<not> readable r \<Longrightarrow> normalize e i r = Inl TypeError"
  by (auto simp: readable_def normalize_def)

lemma normalize_from_unreadable:
  "\<not> list_all readable rs \<Longrightarrow> normalize_from env i rs = Inl TypeError"
proof (induction rs arbitrary: i)
  case Nil
  then show ?case by simp
next
  case (Cons r rs)
  show ?case
  proof (cases "readable r")
    case True
    then obtain t where "normalize (env i) i r = Inr t"
      using normalize_readable by blast
    moreover have "normalize_from env (Suc i) rs = Inl TypeError"
      using Cons True by simp
    ultimately show ?thesis by simp
  next
    case False
    then show ?thesis by (simp add: normalize_unreadable)
  qed
qed

lemma normalize_from_readable:
  "list_all readable rs \<Longrightarrow>
   \<exists>ts. normalize_from env i rs = Inr ts \<and> length ts = length rs
      \<and> (\<forall>k < length rs. normalized (env (i + k)) (i + k) (rs ! k) (ts ! k))"
proof (induction rs arbitrary: i)
  case Nil
  then show ?case by simp
next
  case (Cons r rs)
  from Cons.prems have "readable r" by simp
  from normalize_readable [OF this, of "env i" i] obtain t where
    t: "normalize (env i) i r = Inr t" "normalized (env i) i r t"
    by blast
  from Cons.prems have "list_all readable rs" by simp
  from Cons.IH [OF this, of "Suc i"] obtain ts where
    ts: "normalize_from env (Suc i) rs = Inr ts" "length ts = length rs"
    "\<forall>k < length rs. normalized (env (Suc i + k)) (Suc i + k) (rs ! k) (ts ! k)"
    by blast
  have "\<forall>k < length (r # rs). normalized (env (i + k)) (i + k) ((r # rs) ! k) ((t # ts) ! k)"
  proof (intro allI impI)
    fix k assume "k < length (r # rs)"
    then show "normalized (env (i + k)) (i + k) ((r # rs) ! k) ((t # ts) ! k)"
      using t(2) ts(3) by (cases k) auto
  qed
  with t ts show ?case by simp
qed

lemma load_mixed:
  "loadTasks env0 (Some (JSON (JArr mixed_records))) =
     [\<lparr> task_id = JStr ''4fzyo82mvyrlqzvdhc0'', title = ''Buy milk'', due = JStr [],
        completed = True, createdAt = JStr ''2024-01-05T00:00:00.000Z'', order = 0 \<rparr>,
      \<lparr> task_id = JStr ''k1'', title = ''42'', due = JStr ''2024-01-10'',
        completed = False, createdAt = JStr ''2023-12-31T10:00:00.000Z'', order = 5 \<rparr>]"
  by (simp add: mixed_records_def loadTasks_def loadTasks_try_def normalize_def uid_env0
        iso_now_env0 trim_def is_space_def int_toString_def toStringRadix.simps digit_char_def)

text \<open>
  C4 (amended). load never raises. For a blob that is absent, does not parse, or
  parses to something that is no array it returns the empty collection, and so it
  does whenever reading a record of the array throws: for an element that is null,
  or a title that has no conversion to text. For an array all of whose records can
  be read, it returns one task for each record, in sequence, normalized: a missing
  id is replaced by a fresh one, the title is coerced to trimmed text, due defaults
  to absent, completed is coerced by truthiness, createdAt defaults to the current
  time, and an order that is no number defaults to the position of the record.
\<close>

theorem loadTasks_never_raises_and_normalizes:
  "loadTasks env None = []
   \<and> loadTasks env (Some (NotJSON txt)) = []
   \<and> ((\<forall>xs. parsed \<noteq> JArr xs) \<longrightarrow> loadTasks env (Some (JSON parsed)) = [])
   \<and> (loadTasks_try env raw = Inl x \<longrightarrow> loadTasks env raw = [])
   \<and> (\<not> list_all readable rs \<longrightarrow> loadTasks env (Some (JSON (JArr rs))) = [])
   \<and> (list_all readable rs \<longrightarrow>
        length (loadTasks env (Some (JSON (JArr rs)))) = length rs
      \<and> (\<forall>i < length rs.
            normalized (env i) i (rs ! i) (loadTasks env (Some (JSON (JArr rs))) ! i)))"
proof (intro conjI impI)
  show "loadTasks env None = []" by (simp add: loadTasks_def loadTasks_try_def)
  show "loadTasks env (Some (NotJSON txt)) = []" by (simp add: loadTasks_def loadTasks_try_def)
  show "loadTasks env (Some (JSON parsed)) = []" if "\<forall>xs. parsed \<noteq> JArr xs"
    using that by (cases parsed) (simp_all add: loadTasks_def loadTasks_try_def)
  show "loadTasks env raw = []" if "loadTasks_try env raw = Inl x"
    using that by (simp add: loadTasks_def)
  show "loadTasks env (Some (JSON (JArr rs))) = []" if "\<not> list_all readable rs"
    using normalize_from_unreadable [OF that, of env 0]
    by (simp add: loadTasks_def loadTasks_try_def)
next
  assume "list_all readable rs"
  from normalize_from_readable [OF this, of env 0] obtain ts where
    ts: "normalize_from env 0 rs = Inr ts" "length ts = length rs"
    "\<forall>k < length rs. normalized (env k) k (rs ! k) (ts ! k)"
    by auto
  then have l: "loadTasks env (Some (JSON (JArr rs))) = ts"
    by (simp add: loadTasks_def loadTasks_try_def)
  show "length (loadTasks env (Some (JSON (JArr rs)))) = length rs" using l ts by simp
  show "\<forall>i < length rs.
          normalized (env i) i (rs ! i) (loadTasks env (Some (JSON (JArr rs))) ! i)"
    using l ts by simp
qed

theorem loadTasks_never_raises_and_normalizes_witness:
  "list_all readable mixed_records
   \<and> length (loadTasks env0 (Some (JSON (JArr mixed_records)))) = length mixed_records
   \<and> normalized (env0 0) 0 (mixed_records ! 0)
        (loadTasks env0 (Some (JSON (JArr mixed_records))) ! 0)
   \<and> loadTasks env0 (Some (JSON (JArr mixed_records))) =
       [\<lparr> task_id = JStr ''4fzyo82mvyrlqzvdhc0'', title = ''Buy milk'', due = JStr [],
          completed = True, createdAt = JStr ''2024-01-05T00:00:00.000Z'', order = 0 \<rparr>,
        \<lparr> task_id = JStr ''k1'', title = ''42'', due = JStr ''2024-01-10'',
          completed = False, createdAt = JStr ''2023-12-31T10:00:00.000Z'', order = 5 \<rparr>]
   \<and> loadTasks env0 (Some (JSON (JObj [(''tasks'', JArr mixed_records)]))) = []
   \<and> loadTasks_try env0 (Some (NotJSON ''[{'')) = Inl SyntaxError
   \<and> loadTasks env0 (Some (NotJSON ''[{'')) = []"
proof -
  have h: "list_all readable mixed_records"
    by (simp add: mixed_records_def readable_def int_toString_def toStringRadix.simps
          digit_char_def)
  have n: "\<forall>xs. JObj [(''tasks'', JArr mixed_records)] \<noteq> JArr xs" by simp
  have x: "loadTasks_try env0 (Some (NotJSON ''[{'')) = Inl SyntaxError"
    by (simp add: loadTasks_try_def)
  note T = loadTasks_never_raises_and_normalizes
    [of env0 "''[{''" "JObj [(''tasks'', JArr mixed_records)]" "Some (NotJSON ''[{'')"
        SyntaxError mixed_records]
  have a: "length (loadTasks env0 (Some (JSON (JArr mixed_records)))) = length mixed_records"
    using T h by blast
  have "0 < length mixed_records" by (simp add: mixed_records_def)
  then have b: "normalized (env0 0) 0 (mixed_records ! 0)
        (loadTasks env0 (Some (JSON (JArr mixed_records))) ! 0)"
    using T h by blast
  have c: "loadTasks env0 (Some (JSON (JObj [(''tasks'', JArr mixed_records)]))) = []"
    using T n by blast
  have d: "loadTasks env0 (Some (NotJSON ''[{'')) = []"
    using T x by blast
  from h a b c d x load_mixed show ?thesis by blast
qed

text \<open>
  C4 as stated fails for an array with an element that is null: reading \<^verbatim>\<open>t.id\<close> of
  it throws inside the \<^verbatim>\<open>try\<close>, and the records of the array are all lost, the one
  with the title \<^verbatim>\<open>A\<close> as well, instead of being normalized.
\<close>

theorem loadTasks_null_record_counterexample:
  "null_blob = Some (JSON (JArr [JObj [(''title'', JStr ''A'')], JNull]))
   \<and> loadTasks env0 null_blob = []"
  by (simp add: null_blob_def loadTasks_def loadTasks_try_def normalize_def trim_def is_space_def)

section \<open>Saving and loading again\<close>

lemma normalize_task_json:
  assumes "truthy (task_id t)" "title t \<noteq> []" "trim (title t) = title t"
    "due t = JStr [] \<or> truthy (due t)" "truthy (createdAt t)"
  shows "normalize e i (task_json t) = Inr t"
  using assms by (cases t) (auto simp: normalize_def task_json_def)

lemma normalize_from_task_json:
  "list_all (\<lambda>t. truthy (task_id t) \<and> title t \<noteq> [] \<and> trim (title t) = title t
                 \<and> (due t = JStr [] \<or> truthy (due t)) \<and> truthy (createdAt t)) ts \<Longrightarrow>
   normalize_from env i (map task_json ts) = Inr ts"
  by (induction ts arbitrary: i) (simp_all add: normalize_task_json)

text \<open>
  C9. For every well-formed collection, load applied to what save has stored gives
  the same collection: the same tasks in the same sequence, each with the same id,
  title, due date, completed flag, createdAt and order, whatever the platform hands
  out while loading.
\<close>

theorem load_save_round_trip:
  assumes "well_formed ts"
  shows "loadTasks env (localStorage (saveTasks ts s)) = ts"
  using assms
  by (simp add: well_formed_def saveTasks_def JSON_stringify_def loadTasks_def loadTasks_try_def
        normalize_from_task_json)

theorem load_save_round_trip_witness:
  "well_formed (tasks three_tasks)
   \<and> loadTasks env0 (localStorage (saveTasks (tasks three_tasks) empty_app)) = tasks three_tasks"
proof -
  have h: "well_formed (tasks three_tasks)"
    by (simp add: well_formed_def three_tasks_def stored_def mk_def trim_def is_space_def)
  from h load_save_round_trip [OF h] show ?thesis by blast
qed

section \<open>The collections the program builds\<close>

text \<open>
  Every task that \<^verbatim>\<open>loadTasks\<close> returns or an operation builds is storable, the
  platform's text of the current time being non-empty, and a storable collection
  is loaded as it was saved: the conditions of a well-formed collection on ids,
  due dates and creation times are met by every collection the program holds.
\<close>

lemma toStringRadix_36_not_Nil: "toStringRadix 36 n \<noteq> []"
  by (subst toStringRadix.simps) simp

lemma uid_not_Nil: "uid e \<noteq> []"
  by (simp add: uid_def toStringRadix_36_not_Nil)

lemma or_else_truthy: "truthy d \<Longrightarrow> truthy (or_else x d)"
  by (cases x) auto

lemma or_else_empty: "or_else x (JStr []) = JStr [] \<or> truthy (or_else x (JStr []))"
  by (cases x) auto

lemma normalize_storable:
  "iso_now e \<noteq> [] \<Longrightarrow> normalize e i r = Inr t \<Longrightarrow> storable t"
  using or_else_empty [of "get_prop r ''due''"]
  by (auto simp: normalize_def storable_def trim_trim or_else_truthy uid_not_Nil
        split: if_splits option.splits)

lemma normalize_from_storable:
  "\<forall>k. iso_now (env k) \<noteq> [] \<Longrightarrow> normalize_from env i rs = Inr ts \<Longrightarrow> list_all storable ts"
proof (induction rs arbitrary: i ts)
  case Nil
  then show ?case by simp
next
  case (Cons r rs)
  from Cons.prems(2) obtain t ts' where
    t: "normalize (env i) i r = Inr t" and ts': "normalize_from env (Suc i) rs = Inr ts'"
    and e: "ts = t # ts'"
    by (auto split: sum.splits)
  from Cons.prems(1) t have "storable t" by (auto intro: normalize_storable)
  moreover from Cons.IH [OF Cons.prems(1) ts'] have "list_all storable ts'" .
  ultimately show ?case using e by simp
qed

lemma loadTasks_storable:
  "\<forall>k. iso_now (env k) \<noteq> [] \<Longrightarrow> list_all storable (loadTasks env raw)"
  by (auto simp: loadTasks_def loadTasks_try_def normalize_from_storable
        split: option.splits blob.splits jsval.splits sum.splits)

lemma addTask_storable:
  "iso_now e \<noteq> [] \<Longrightarrow> trim ttl = ttl \<Longrightarrow> list_all storable (tasks s) \<Longrightarrow>
   list_all storable (tasks (addTask e ttl d s))"
  by (simp add: tasks_addTask storable_def uid_not_Nil)

lemma storable_order [simp]: "storable (t\<lparr>order := n\<rparr>) = storable t"
  by (simp add: storable_def)

lemma forEach_order_storable: "list_all storable (forEach_order i ts) = list_all storable ts"
  by (induction ts arbitrary: i) auto

lemma js_sort_storable: "list_all storable (js_sort cmp ts) = list_all storable ts"
  by (simp add: list_all_iff set_js_sort)

lemma reindexOrder_storable: "list_all storable ts \<Longrightarrow> list_all storable (reindexOrder ts)"
  by (simp add: reindexOrder_def forEach_order_storable js_sort_storable)

lemma filter_storable: "list_all storable ts \<Longrightarrow> list_all storable (filter P ts)"
  by (simp add: list_all_iff)

lemma deleteTask_storable:
  "list_all storable (tasks s) \<Longrightarrow> list_all storable (tasks (deleteTask i s))"
  by (simp add: tasks_deleteTask reindexOrder_storable filter_storable)

lemma clearAll_storable:
  "list_all storable (tasks s) \<Longrightarrow> list_all storable (tasks (clearAllBtn_click s))"
  by (cases "list_ex completed (tasks s)")
     (simp_all add: tasks_clearAll clearAll_none reindexOrder_storable filter_storable)

lemma find_set_order_storable:
  "list_all storable (find_set_order i n ts) = list_all storable ts"
  by (induction ts) auto

lemma forEach_id_storable: "list_all storable (forEach_id index xs ts) = list_all storable ts"
  by (induction xs arbitrary: index ts) (auto simp: find_set_order_storable)

lemma dragend_storable:
  "list_all storable (tasks s) \<Longrightarrow> list_all storable (tasks (dragend ids s))"
  by (simp add: tasks_dragend forEach_id_storable)

lemma spread_storable:
  assumes "storable t" "case patch_title p of None \<Rightarrow> True | Some x \<Rightarrow> trim x = x"
  shows "storable (spread t p)"
  using assms by (auto simp: storable_def spread_def split: option.splits)

lemma updateTask_storable:
  assumes "list_all storable (tasks s)"
    and "case patch_title p of None \<Rightarrow> True | Some x \<Rightarrow> trim x = x"
  shows "list_all storable (tasks (updateTask i p s))"
proof (cases "findIndex (\<lambda>t. task_id t = i) (tasks s)")
  case None
  with assms show ?thesis by (simp add: updateTask_def)
next
  case (Some idx)
  from findIndex_Some [OF Some] have "idx < length (tasks s)" by simp
  with assms(1) have "storable (tasks s ! idx)" by (simp add: list_all_length)
  then have "storable (spread (tasks s ! idx) p)" using assms(2) by (rule spread_storable)
  with assms(1) have "list_all storable ((tasks s)[idx := spread (tasks s ! idx) p])"
    by (auto simp: list_all_iff dest: set_update_subset_insert [THEN subsetD])
  with Some show ?thesis by (simp add: updateTask_def Let_def saveTasks_def)
qed

lemma save_click_storable:
  "list_all storable (tasks s) \<Longrightarrow> list_all storable (tasks (snd (save_click i tv dv s)))"
  by (simp add: save_click_def Let_def updateTask_storable trim_trim)

lemma addBtn_click_storable:
  "iso_now e \<noteq> [] \<Longrightarrow> list_all storable (tasks s) \<Longrightarrow>
   list_all storable (tasks (snd (addBtn_click e tv dv s)))"
  by (simp add: addBtn_click_def Let_def addTask_storable trim_trim)

lemma normalize_storable_json: "storable t \<Longrightarrow> normalize e i (task_json t) = Inr t"
  by (cases t) (auto simp: storable_def normalize_def task_json_def)

lemma normalize_from_storable_json:
  "list_all storable ts \<Longrightarrow> normalize_from env i (map task_json ts) = Inr ts"
  by (induction ts arbitrary: i) (simp_all add: normalize_storable_json)

lemma load_save_storable:
  "list_all storable ts \<Longrightarrow> loadTasks env (localStorage (saveTasks ts s)) = ts"
  by (simp add: saveTasks_def JSON_stringify_def loadTasks_def loadTasks_try_def
        normalize_from_storable_json)

lemma well_formed_storable: "well_formed ts \<Longrightarrow> list_all storable ts"
  by (simp add: well_formed_def storable_def list_all_iff)

end
